theory Spec2Isabelle
  imports Main "HOL-Library.AList" "HOL-Library.Char_ord" "HOL-Library.List_Lexorder"
begin

section \<open>Cells, sheets and errors\<close>

text \<open>
  A spreadsheet cell value as \<open>openpyxl\<close> hands it to the program: absent (\<open>None\<close>),
  text, or an integer. Text is a list of bytes (UTF-8), so the Chinese column names of the
  source are byte lists below. Floating-point and date cells are outside the model.
\<close>

datatype cell = CNone | CStr string | CInt int

text \<open>
  A workbook file on disk, seen through \<open>load_workbook(..., read_only=True)\<close>:
  \<^item> \<open>Unreadable\<close>: \<open>load_workbook\<close> raises (I/O error, not a workbook);
  \<^item> \<open>Sheet rows\<close>: the active sheet reads as \<open>rows\<close> (a sheet without rows makes
    \<open>next(ws.rows)\<close> raise \<open>StopIteration\<close>);
  \<^item> \<open>Broken hdr\<close>: the first row reads as \<open>hdr\<close>, and reading on
    (\<open>list(ws.rows)\<close>) raises.
\<close>

datatype xlsx = Unreadable | Sheet "cell list list" | Broken "cell list"

datatype error = LoadError | StopIteration | ParseError | ValueError | AttributeError | TypeError

subsection \<open>Column names\<close>

definition COL_NAME :: string where
  "COL_NAME = [CHR 0xE5, CHR 0xB9, CHR 0xB4, CHR 0xE7, CHR 0xBA, CHR 0xA7, CHR 0xE4, CHR 0xB8,
               CHR 0x93, CHR 0xE4, CHR 0xB8, CHR 0x9A, CHR 0xE7, CHR 0x8F, CHR 0xAD, CHR 0xE7,
               CHR 0xBA, CHR 0xA7, CHR 0xE5, CHR 0xA7, CHR 0x93, CHR 0xE5, CHR 0x90, CHR 0x8D]"

definition COL_PHONE :: string where
  "COL_PHONE = [CHR 0xE6, CHR 0x89, CHR 0x8B, CHR 0xE6, CHR 0x9C, CHR 0xBA, CHR 0xE5, CHR 0x8F,
                CHR 0xB7, CHR 0xE7, CHR 0xA0, CHR 0x81]"

definition COL_ID :: string where
  "COL_ID = [CHR 0xE5, CHR 0xAD, CHR 0xA6, CHR 0xE5, CHR 0x8F, CHR 0xB7]"

definition COL_TOTAL :: string where
  "COL_TOTAL = [CHR 0xE6, CHR 0x80, CHR 0xBB, CHR 0xE5, CHR 0x88, CHR 0x86]"

definition UNKNOWN :: string where
  "UNKNOWN = [CHR 0xE6, CHR 0x9C, CHR 0xAA, CHR 0xE7, CHR 0x9F, CHR 0xA5]"

subsection \<open>Python string operations\<close>

text \<open>
  \<open>s.replace(old, new)\<close>: every non-overlapping occurrence of \<open>old\<close>, found from the
  left, is replaced. For an empty \<open>old\<close> Python puts \<open>new\<close> before every character and
  at the end.
\<close>

function replace :: "string \<Rightarrow> string \<Rightarrow> string \<Rightarrow> string" where
  "replace old new s =
     (if old = [] then concat (map (\<lambda>c. new @ [c]) s) @ new
      else if s = [] then []
      else if take (length old) s = old then new @ replace old new (drop (length old) s)
      else hd s # replace old new (tl s))"
  by pat_completeness auto
termination
  by (relation "measure (\<lambda>(old, new, s). length s)") auto

declare replace.simps [simp del]

definition startswith :: "string \<Rightarrow> string \<Rightarrow> bool" where
  "startswith s p = (take (length p) s = p)"

fun digits :: "nat \<Rightarrow> string" where
  "digits n = (if n < 10 then [''0123456789'' ! n]
               else digits (n div 10) @ [''0123456789'' ! (n mod 10)])"

declare digits.simps [simp del]

text \<open>\<open>str(v)\<close> of a cell value.\<close>

fun str :: "cell \<Rightarrow> string" where
  "str CNone = ''None''"
| "str (CStr s) = s"
| "str (CInt i) = (if i < 0 then CHR ''-'' # digits (nat (- i)) else digits (nat i))"

subsection \<open>Period labels\<close>

text \<open>Lines 51-52: \<open>period = file.replace('S', '').replace('.xlsx', '')\<close>, \<open>f'S{period}'\<close>.\<close>

definition period_key :: "string \<Rightarrow> string" where
  "period_key file = ''S'' @ replace ''.xlsx'' '''' (replace ''S'' '''' file)"

subsection \<open>Lists and dictionaries\<close>

text \<open>
  \<open>xs.index(x)\<close>: the position of the first occurrence; \<open>None\<close> stands for the
  \<open>ValueError\<close> Python raises when there is none.
\<close>

fun index :: "'a list \<Rightarrow> 'a \<Rightarrow> nat option" where
  "index [] x = None"
| "index (y # ys) x = (if y = x then Some 0 else map_option Suc (index ys x))"

text \<open>
  A Python dictionary is an association list with distinct keys in insertion order:
  \<open>d[k] = v\<close> is \<^const>\<open>AList.update\<close>, \<open>d.get(k)\<close> is \<^const>\<open>map_of\<close>,
  \<open>k in d\<close> is \<open>map_of d k \<noteq> None\<close>.
\<close>

record entry =
  info :: "cell \<times> cell"
  scores :: "(string \<times> cell) list"

text \<open>
  The variables of \<open>process_activity_data\<close> that the file loop changes. The set
  \<open>all_participants\<close> is the list of its members, without duplicates.
\<close>

record state =
  all_data :: "(string \<times> entry) list"
  all_participants :: "string list"
  participant_info :: "(string \<times> cell \<times> cell) list"
  processed_files :: "string list"

section \<open>Reading a workbook\<close>

text \<open>\<open>load_workbook\<close>, \<open>wb.active\<close> and \<open>next(ws.rows)\<close>: the header row.\<close>

fun header_row :: "xlsx \<Rightarrow> error + cell list" where
  "header_row Unreadable = Inl LoadError"
| "header_row (Sheet []) = Inl StopIteration"
| "header_row (Sheet (h # rs)) = Inr h"
| "header_row (Broken h) = Inr h"

text \<open>\<open>list(ws.rows)[1:]\<close>: the rows after the header.\<close>

fun data_rows :: "xlsx \<Rightarrow> error + cell list list" where
  "data_rows Unreadable = Inl LoadError"
| "data_rows (Sheet rs) = Inr (tl rs)"
| "data_rows (Broken h) = Inl ParseError"

text \<open>\<open>v if v is not None else 0\<close>.\<close>

definition or_zero :: "cell \<Rightarrow> cell" where
  "or_zero v = (if v \<noteq> CNone then v else CInt 0)"

section \<open>Existing-summary loader (\<open>read_existing_summary\<close>)\<close>

text \<open>
  Lines 219-222. \<open>header.startswith\<close> is evaluated for every header, so a header that
  is not text raises \<open>AttributeError\<close>.
\<close>

fun period_columns :: "nat list \<Rightarrow> nat \<Rightarrow> cell list \<Rightarrow> error + string list" where
  "period_columns fixed i [] = Inr []"
| "period_columns fixed i (CStr header # hs) =
     (case period_columns fixed (Suc i) hs of
        Inl e \<Rightarrow> Inl e
      | Inr ps \<Rightarrow> Inr (if startswith header ''S'' \<and> i \<notin> set fixed then header # ps else ps))"
| "period_columns fixed i (_ # hs) = Inl AttributeError"

text \<open>Lines 246-250: the scores of one row, one period column after the other.\<close>

fun read_scores :: "cell list \<Rightarrow> cell list \<Rightarrow> string list \<Rightarrow> (string \<times> cell) list
    \<Rightarrow> error + (string \<times> cell) list" where
  "read_scores headers row [] sc = Inr sc"
| "read_scores headers row (period # ps) sc =
     (case index headers (CStr period) of
        None \<Rightarrow> Inl ValueError
      | Some period_idx \<Rightarrow>
          read_scores headers row ps
            (if period_idx < length row then AList.update period (or_zero (row ! period_idx)) sc
             else sc))"

text \<open>Lines 227-250: one pass of the row loop.\<close>

definition summary_row :: "cell list \<Rightarrow> nat \<Rightarrow> nat \<Rightarrow> nat \<Rightarrow> nat \<Rightarrow> string list
    \<Rightarrow> (string \<times> entry) list \<Rightarrow> cell list \<Rightarrow> error + (string \<times> entry) list" where
  "summary_row headers name_idx phone_idx id_idx total_idx pcs student_data row =
     (if length row \<le> max (max name_idx phone_idx) (max id_idx total_idx) then Inr student_data
      else
        let name = row ! name_idx;
            phone = row ! phone_idx;
            student_id = str (row ! id_idx)
        in if student_id = [] then Inr student_data
           else case read_scores headers row pcs [] of
                  Inl e \<Rightarrow> Inl e
                | Inr sc \<Rightarrow>
                    Inr (AList.update student_id \<lparr>info = (name, phone), scores = sc\<rparr>
                          student_data))"

fun summary_rows :: "cell list \<Rightarrow> nat \<Rightarrow> nat \<Rightarrow> nat \<Rightarrow> nat \<Rightarrow> string list
    \<Rightarrow> (string \<times> entry) list \<Rightarrow> cell list list \<Rightarrow> error + (string \<times> entry) list" where
  "summary_rows headers n p i t pcs student_data [] = Inr student_data"
| "summary_rows headers n p i t pcs student_data (row # rows) =
     (case summary_row headers n p i t pcs student_data row of
        Inl e \<Rightarrow> Inl e
      | Inr student_data' \<Rightarrow> summary_rows headers n p i t pcs student_data' rows)"

text \<open>
  The body of the outer \<open>try\<close> (lines 200-253). \<open>Inl\<close> is an exception that reaches the
  outer handler; a missing required column (the inner \<open>ValueError\<close> handler) returns the
  empty result.
\<close>

definition load_summary :: "xlsx \<Rightarrow> error + (string \<times> entry) list \<times> string list" where
  "load_summary wb =
     (case header_row wb of
        Inl e \<Rightarrow> Inl e
      | Inr headers \<Rightarrow>
          (case (index headers (CStr COL_NAME), index headers (CStr COL_PHONE),
                 index headers (CStr COL_ID), index headers (CStr COL_TOTAL)) of
             (Some name_idx, Some phone_idx, Some id_idx, Some total_idx) \<Rightarrow>
               (case period_columns [name_idx, phone_idx, id_idx, total_idx] 0 headers of
                  Inl e \<Rightarrow> Inl e
                | Inr pcs \<Rightarrow>
                    (case data_rows wb of
                       Inl e \<Rightarrow> Inl e
                     | Inr rows \<Rightarrow>
                         (case summary_rows headers name_idx phone_idx id_idx total_idx pcs [] rows of
                            Inl e \<Rightarrow> Inl e
                          | Inr student_data \<Rightarrow> Inr (student_data, pcs))))
           | _ \<Rightarrow> Inr ([], [])))"

definition read_existing_summary :: "xlsx \<Rightarrow> (string \<times> entry) list \<times> string list" where
  "read_existing_summary wb = (case load_summary wb of Inl e \<Rightarrow> ([], []) | Inr r \<Rightarrow> r)"

section \<open>Period ingestor (the file loop of \<open>process_activity_data\<close>)\<close>

definition required_columns :: "string list" where
  "required_columns = [COL_NAME, COL_PHONE, COL_ID, COL_TOTAL]"

text \<open>Lines 86-115: one pass of the row loop of a period file.\<close>

definition ingest_row :: "nat \<Rightarrow> nat \<Rightarrow> nat \<Rightarrow> nat \<Rightarrow> string \<Rightarrow> state \<Rightarrow> cell list \<Rightarrow> state" where
  "ingest_row name_idx phone_idx id_idx score_idx pkey st row =
     (if length row \<le> max (max name_idx phone_idx) (max id_idx score_idx) then st
      else
        let name = row ! name_idx;
            phone = row ! phone_idx;
            student_id = str (row ! id_idx);
            score = or_zero (row ! score_idx)
        in if student_id = [] then st
           else
             let data = (if map_of (all_data st) student_id = None
                         then AList.update student_id \<lparr>info = (name, phone), scores = []\<rparr>
                                (all_data st)
                         else all_data st)
             in st\<lparr>all_participants := List.insert student_id (all_participants st),
                    participant_info :=
                      (if map_of (participant_info st) student_id = None
                       then AList.update student_id (name, phone) (participant_info st)
                       else participant_info st),
                    all_data :=
                      AList.map_entry student_id
                        (\<lambda>e. e\<lparr>scores := AList.update pkey score (scores e)\<rparr>) data\<rparr>)"

text \<open>
  The \<open>try\<close> block (lines 60-119) for one file. \<open>Inl e\<close>: an exception reaches the
  handler at line 121. \<open>Inr st\<close> with the state unchanged: the \<open>continue\<close> at line 75
  (missing columns). Otherwise the rows are folded in and the file is recorded as
  processed.
\<close>

definition try_file :: "string \<Rightarrow> xlsx \<Rightarrow> state \<Rightarrow> error + state" where
  "try_file file wb st =
     (case header_row wb of
        Inl e \<Rightarrow> Inl e
      | Inr headers \<Rightarrow>
          let missing_columns = filter (\<lambda>col. CStr col \<notin> set headers) required_columns
          in if missing_columns \<noteq> [] then Inr st
             else
               (case (index headers (CStr COL_NAME), index headers (CStr COL_PHONE),
                      index headers (CStr COL_ID), index headers (CStr COL_TOTAL)) of
                  (Some name_idx, Some phone_idx, Some id_idx, Some score_idx) \<Rightarrow>
                    (case data_rows wb of
                       Inl e \<Rightarrow> Inl e
                     | Inr rows \<Rightarrow>
                         let st' = foldl (ingest_row name_idx phone_idx id_idx score_idx
                                            (period_key file)) st rows
                         in Inr (st'\<lparr>processed_files := processed_files st' @ [file]\<rparr>))
                | _ \<Rightarrow> Inl ValueError))"

text \<open>Lines 49-122: the loop over the files; a caught exception leaves the state as it is.\<close>

fun process_files :: "bool \<Rightarrow> string list \<Rightarrow> (string \<times> xlsx) list \<Rightarrow> state \<Rightarrow> state" where
  "process_files update_mode existing_periods [] st = st"
| "process_files update_mode existing_periods ((file, wb) # files) st =
     (if period_key file \<in> set existing_periods \<and> update_mode
      then process_files update_mode existing_periods files st
      else case try_file file wb st of
             Inl e \<Rightarrow> process_files update_mode existing_periods files st
           | Inr st' \<Rightarrow> process_files update_mode existing_periods files st')"

text \<open>Lines 35-45: the state before the loop, from the loaded summary.\<close>

definition initial_state :: "(string \<times> entry) list \<Rightarrow> state" where
  "initial_state existing_data =
     \<lparr>all_data = existing_data,
      all_participants = remdups (map fst existing_data),
      participant_info =
        foldl (\<lambda>pi (student_id, data). AList.update student_id (info data) pi) [] existing_data,
      processed_files = []\<rparr>"

text \<open>Lines 28-32: the existing summary is read in update mode, when the file exists.\<close>

definition load_existing :: "xlsx option \<Rightarrow> bool \<Rightarrow> (string \<times> entry) list \<times> string list" where
  "load_existing summary update_mode =
     (case summary of
        Some wb \<Rightarrow> if update_mode then read_existing_summary wb else ([], [])
      | None \<Rightarrow> ([], []))"

text \<open>
  Lines 19-122 when some file matched: \<open>found\<close> is what \<open>glob\<close> returns, each name with
  the content of its file; the result is the state after the loop.
\<close>

definition ingest :: "(string \<times> xlsx) list \<Rightarrow> xlsx option \<Rightarrow> bool \<Rightarrow> state" where
  "ingest found summary update_mode =
     process_files update_mode (snd (load_existing summary update_mode)) (sort_key fst found)
       (initial_state (fst (load_existing summary update_mode)))"

section \<open>Summary builder\<close>

text \<open>Lines 132-135.\<close>

definition all_periods :: "string list \<Rightarrow> string list \<Rightarrow> string list" where
  "all_periods existing_periods processed =
     sort (remdups (existing_periods @ map period_key processed))"

text \<open>Line 164: \<open>student_scores.get(period, 0)\<close>.\<close>

definition score_in :: "(string \<times> cell) list \<Rightarrow> string \<Rightarrow> cell" where
  "score_in student_scores period =
     (case map_of student_scores period of None \<Rightarrow> CInt 0 | Some v \<Rightarrow> v)"

text \<open>
  Lines 163-166: \<open>total_score += score\<close> raises \<open>TypeError\<close> for a score that is not a
  number.
\<close>

fun add_periods :: "(string \<times> cell) list \<Rightarrow> string list \<Rightarrow> cell list \<times> int
    \<Rightarrow> error + cell list \<times> int" where
  "add_periods student_scores [] acc = Inr acc"
| "add_periods student_scores (period # ps) (row_data, total_score) =
     (case score_in student_scores period of
        CInt n \<Rightarrow> add_periods student_scores ps (row_data @ [CInt n], total_score + n)
      | _ \<Rightarrow> Inl TypeError)"

text \<open>Lines 155-157.\<close>

definition student_info :: "state \<Rightarrow> string \<Rightarrow> cell \<times> cell" where
  "student_info st student_id =
     (case map_of (participant_info st) student_id of
        None \<Rightarrow> (CStr UNKNOWN, CStr UNKNOWN) | Some i \<Rightarrow> i)"

definition student_scores :: "state \<Rightarrow> string \<Rightarrow> (string \<times> cell) list" where
  "student_scores st student_id =
     (case map_of (all_data st) student_id of None \<Rightarrow> [] | Some data \<Rightarrow> scores data)"

text \<open>Lines 160-169: the row of one participant.\<close>

definition student_row :: "state \<Rightarrow> string list \<Rightarrow> string \<Rightarrow> error + cell list" where
  "student_row st periods student_id =
     (case add_periods (student_scores st student_id) periods
             ([fst (student_info st student_id), snd (student_info st student_id),
               CStr student_id], 0) of
        Inl e \<Rightarrow> Inl e
      | Inr (row_data, total_score) \<Rightarrow> Inr (row_data @ [CInt total_score]))"

fun result_rows :: "state \<Rightarrow> string list \<Rightarrow> string list \<Rightarrow> error + cell list list" where
  "result_rows st periods [] = Inr []"
| "result_rows st periods (student_id # ids) =
     (case student_row st periods student_id of
        Inl e \<Rightarrow> Inl e
      | Inr row_data \<Rightarrow>
          (case result_rows st periods ids of
             Inl e \<Rightarrow> Inl e
           | Inr result_data \<Rightarrow> Inr (row_data # result_data)))"

text \<open>The sort key \<open>x[-1]\<close>: the total, which line 168 put last.\<close>

definition total_of :: "cell list \<Rightarrow> int" where
  "total_of row_data = (case last row_data of CInt n \<Rightarrow> n | _ \<Rightarrow> 0)"

text \<open>
  Lines 143-177: the table that is written, header row first.
  \<open>iter\<close> is the order in which Python iterates the set \<open>all_participants\<close>, which the
  language leaves open. \<open>sort(key=..., reverse=True)\<close> is stable, as is \<^const>\<open>sort_key\<close>.
\<close>

definition build_table :: "(string list \<Rightarrow> string list) \<Rightarrow> state \<Rightarrow> string list
    \<Rightarrow> error + cell list list" where
  "build_table iter st periods =
     (let headers = [CStr COL_NAME, CStr COL_PHONE, CStr COL_ID] @ map CStr periods
                      @ [CStr COL_TOTAL]
      in case result_rows st periods (iter (all_participants st)) of
           Inl e \<Rightarrow> Inl e
         | Inr result_data \<Rightarrow> Inr (headers # sort_key (\<lambda>x. - total_of x) result_data))"

section \<open>\<open>process_activity_data\<close>\<close>

text \<open>
  What a run does to the output file: nothing (the three early returns), or the table it
  writes. \<open>Inl\<close> is an exception that leaves \<open>process_activity_data\<close>.
\<close>

datatype outcome = Not_Found | Nothing_Read | Unchanged | Written "cell list list"

definition process_activity_data :: "(string list \<Rightarrow> string list) \<Rightarrow> (string \<times> xlsx) list
    \<Rightarrow> xlsx option \<Rightarrow> bool \<Rightarrow> error + outcome" where
  "process_activity_data iter found summary update_mode =
     (if found = [] then Inr Not_Found
      else
        let existing_data = fst (load_existing summary update_mode);
            existing_periods = snd (load_existing summary update_mode);
            st = ingest found summary update_mode
        in if processed_files st = [] \<and> existing_data = [] then Inr Nothing_Read
           else if processed_files st = [] then Inr Unchanged
           else case build_table iter st (all_periods existing_periods (processed_files st)) of
                  Inl e \<Rightarrow> Inl e
                | Inr table \<Rightarrow> Inr (Written table))"

text \<open>The summary file after a run.\<close>

fun summary_after :: "xlsx option \<Rightarrow> error + outcome \<Rightarrow> xlsx option" where
  "summary_after summary (Inr (Written table)) = Some (Sheet table)"
| "summary_after summary _ = summary"

section \<open>A worked run\<close>

text \<open>
  Two period files: participant 100 only in \<open>S1\<close>, 102 only in \<open>S2\<close>, 101 in both, with
  another name in \<open>S2\<close>.
\<close>

definition example_header :: "cell list" where
  "example_header = [CStr COL_NAME, CStr COL_PHONE, CStr COL_ID, CStr COL_TOTAL]"

definition example_S1 :: xlsx where
  "example_S1 = Sheet [example_header, [CStr ''A'', CInt 555, CInt 100, CInt 50],
                                       [CStr ''B'', CNone, CInt 101, CInt 30]]"

definition example_S2 :: xlsx where
  "example_S2 = Sheet [example_header, [CStr ''B2'', CInt 777, CInt 101, CInt 40],
                                       [CStr ''C'', CNone, CInt 102, CInt 10]]"

definition example_found :: "(string \<times> xlsx) list" where
  "example_found = [(''S2.xlsx'', example_S2), (''S1.xlsx'', example_S1)]"

definition example_table :: "cell list list" where
  "example_table =
     [[CStr COL_NAME, CStr COL_PHONE, CStr COL_ID, CStr ''S1'', CStr ''S2'', CStr COL_TOTAL],
      [CStr ''B'', CNone, CStr ''101'', CInt 30, CInt 40, CInt 70],
      [CStr ''A'', CInt 555, CStr ''100'', CInt 50, CInt 0, CInt 50],
      [CStr ''C'', CNone, CStr ''102'', CInt 0, CInt 10, CInt 10]]"

section \<open>Vocabulary of the properties\<close>

text \<open>The period labels that the score mappings of the participants refer to.\<close>

definition score_labels :: "(string \<times> entry) list \<Rightarrow> string set" where
  "score_labels data = (\<Union>e \<in> snd ` set data. fst ` set (scores e))"

text \<open>
  A data row that the row loops do not skip: long enough for the four columns, and with
  a non-empty identifier text.
\<close>

definition valid_row :: "nat \<Rightarrow> nat \<Rightarrow> nat \<Rightarrow> nat \<Rightarrow> cell list \<Rightarrow> bool" where
  "valid_row n p i s row \<longleftrightarrow> \<not> length row \<le> max (max n p) (max i s) \<and> str (row ! i) \<noteq> []"

text \<open>A batch with a file that cannot be read and one that lacks the identifier column.\<close>

definition example_no_id :: xlsx where
  "example_no_id = Sheet [[CStr COL_NAME, CStr COL_PHONE, CStr COL_TOTAL],
                          [CStr ''D'', CNone, CInt 99]]"

text \<open>
  The participants a period file shows, in row order, with the name and contact cells of
  each row: the rows the row loop does not skip, of a file that passes the header check
  and whose rows can be read.
\<close>

definition sightings :: "xlsx \<Rightarrow> (string \<times> cell \<times> cell) list" where
  "sightings wb =
     (case header_row wb of
        Inl e \<Rightarrow> []
      | Inr headers \<Rightarrow>
          (case (index headers (CStr COL_NAME), index headers (CStr COL_PHONE),
                 index headers (CStr COL_ID), index headers (CStr COL_TOTAL)) of
             (Some n, Some p, Some i, Some s) \<Rightarrow>
               (case data_rows wb of
                  Inl e \<Rightarrow> []
                | Inr rows \<Rightarrow>
                    map (\<lambda>row. (str (row ! i), row ! n, row ! p))
                      (filter (valid_row n p i s) rows))
           | _ \<Rightarrow> []))"

text \<open>The files of a batch that are not skipped as already known.\<close>

definition considered :: "bool \<Rightarrow> string list \<Rightarrow> (string \<times> xlsx) list
    \<Rightarrow> (string \<times> xlsx) list" where
  "considered update_mode existing_periods files =
     filter (\<lambda>(f, wb). \<not> (period_key f \<in> set existing_periods \<and> update_mode)) files"

text \<open>A header cell that holds text.\<close>

definition text_cell :: "cell \<Rightarrow> bool" where
  "text_cell c = (case c of CStr s \<Rightarrow> True | _ \<Rightarrow> False)"

text \<open>
  The sightings that an existing summary contributes to a run, read from its sheet. It
  contributes none when there is no summary file, when the run is not in update mode, or
  when its header row holds a cell that is not text (the load then fails and the run
  starts from nothing). Otherwise it contributes its rows, the last row first: the
  summary has the same four columns as a period file, and within the summary a later row
  replaces an earlier one with the same identifier.
\<close>

definition summary_sightings :: "xlsx option \<Rightarrow> bool \<Rightarrow> (string \<times> cell \<times> cell) list" where
  "summary_sightings summary update_mode =
     (case summary of
        None \<Rightarrow> []
      | Some wb \<Rightarrow>
          if \<not> update_mode then []
          else (case header_row wb of
                  Inl e \<Rightarrow> []
                | Inr headers \<Rightarrow> if list_all text_cell headers then rev (sightings wb) else []))"

text \<open>
  Every sighting of a participant in a run, in the order of the run: the rows of the
  existing summary first, then the rows of the files in name order. \<^const>\<open>map_of\<close> on
  this list gives, for an identifier, its first sighting.
\<close>

definition identity_sightings :: "(string \<times> xlsx) list \<Rightarrow> xlsx option \<Rightarrow> bool
    \<Rightarrow> (string \<times> cell \<times> cell) list" where
  "identity_sightings found summary update_mode =
     summary_sightings summary update_mode
     @ concat (map (\<lambda>(f, wb). sightings wb)
         (considered update_mode (snd (load_existing summary update_mode))
            (sort_key fst found)))"

text \<open>The identity attributes of the records of a loaded summary.\<close>

definition summary_identities :: "(string \<times> entry) list \<Rightarrow> (string \<times> cell \<times> cell) list" where
  "summary_identities existing_data =
     map (\<lambda>(student_id, data). (student_id, info data)) existing_data"

text \<open>A period file with one row whose identifier cell is absent.\<close>

definition example_absent_id :: xlsx where
  "example_absent_id = Sheet [example_header, [CStr ''Z'', CNone, CNone, CInt 7]]"

text \<open>A period file with one row whose name cell is absent, and the table written for it.\<close>

definition example_absent_name :: xlsx where
  "example_absent_name = Sheet [example_header, [CNone, CNone, CInt 100, CInt 5]]"

definition example_absent_name_table :: "cell list list" where
  "example_absent_name_table =
     [[CStr COL_NAME, CStr COL_PHONE, CStr COL_ID, CStr ''S1'', CStr COL_TOTAL],
      [CNone, CNone, CStr ''100'', CInt 5, CInt 5]]"

text \<open>The four fixed columns of a summary.\<close>

definition fixed_columns :: "string list" where
  "fixed_columns = [COL_NAME, COL_PHONE, COL_ID, COL_TOTAL]"

text \<open>The headers that are text starting with \<open>S\<close>, in column order.\<close>

fun S_headers :: "cell list \<Rightarrow> string list" where
  "S_headers [] = []"
| "S_headers (CStr s # hs) = (if startswith s ''S'' then s # S_headers hs else S_headers hs)"
| "S_headers (_ # hs) = S_headers hs"

text \<open>
  A period file that the file loop can consume: it opens, its header row has the four
  required columns, and its rows can be read.
\<close>

definition consumable :: "xlsx \<Rightarrow> bool" where
  "consumable wb =
     (case header_row wb of
        Inl e \<Rightarrow> False
      | Inr headers \<Rightarrow>
          list_all (\<lambda>col. CStr col \<in> set headers) required_columns \<and>
          (case data_rows wb of Inl e \<Rightarrow> False | Inr rows \<Rightarrow> True))"

text \<open>An iteration order for the examples: the members as they were inserted.\<close>

definition as_inserted :: "string list \<Rightarrow> string list" where
  "as_inserted xs = xs"




text \<open>A batch of one good file and one that cannot be read, and the table written for it.\<close>

definition example_batch :: "(string \<times> xlsx) list" where
  "example_batch = [(''S1.xlsx'', example_S1), (''S2.xlsx'', Unreadable)]"

definition example_batch_table :: "cell list list" where
  "example_batch_table =
     [[CStr COL_NAME, CStr COL_PHONE, CStr COL_ID, CStr ''S1'', CStr COL_TOTAL],
      [CStr ''A'', CInt 555, CStr ''100'', CInt 50, CInt 50],
      [CStr ''B'', CNone, CStr ''101'', CInt 30, CInt 30]]"

text \<open>
  An existing summary that knows participant 100 as \<open>Alice\<close>, a later period file that
  calls the same participant \<open>Alicia\<close>, and the table written when the file is added.
\<close>

definition example_known_summary :: xlsx where
  "example_known_summary =
     Sheet [[CStr COL_NAME, CStr COL_PHONE, CStr COL_ID, CStr ''S1'', CStr COL_TOTAL],
            [CStr ''Alice'', CInt 111, CStr ''100'', CInt 5, CInt 5]]"

definition example_later_file :: xlsx where
  "example_later_file = Sheet [example_header, [CStr ''Alicia'', CInt 999, CInt 100, CInt 7]]"

definition example_first_table :: "cell list list" where
  "example_first_table =
     [[CStr COL_NAME, CStr COL_PHONE, CStr COL_ID, CStr ''S1'', CStr ''S2'', CStr COL_TOTAL],
      [CStr ''Alice'', CInt 111, CStr ''100'', CInt 5, CInt 7, CInt 12]]"


section \<open>The summary builder: rows, totals and order\<close>

lemma example_run:
  "process_activity_data (\<lambda>xs. xs) example_found None True = Inr (Written example_table)"
  by code_simp

lemma add_periods_Inr:
  "add_periods sc ps (rd, t) = Inr (rd', t') \<Longrightarrow>
     \<exists>ns. map (score_in sc) ps = map CInt ns \<and> rd' = rd @ map CInt ns \<and> t' = t + sum_list ns"
proof (induction ps arbitrary: rd t)
  case Nil
  then show ?case by simp
next
  case (Cons p ps)
  from Cons.prems obtain n where n: "score_in sc p = CInt n"
    by (cases "score_in sc p") auto
  with Cons.prems have "add_periods sc ps (rd @ [CInt n], t + n) = Inr (rd', t')" by simp
  from Cons.IH[OF this] obtain ns where
    "map (score_in sc) ps = map CInt ns" "rd' = (rd @ [CInt n]) @ map CInt ns"
    "t' = t + n + sum_list ns"
    by blast
  with n have "map (score_in sc) (p # ps) = map CInt (n # ns) \<and> rd' = rd @ map CInt (n # ns)
      \<and> t' = t + sum_list (n # ns)" by simp
  then show ?case by blast
qed

lemma student_row_Inr:
  assumes "student_row st ps sid = Inr r"
  shows "\<exists>ns. map (score_in (student_scores st sid)) ps = map CInt ns \<and>
     r = [fst (student_info st sid), snd (student_info st sid), CStr sid] @ map CInt ns
           @ [CInt (sum_list ns)]"
proof -
  from assms obtain rd t where a: "add_periods (student_scores st sid) ps
       ([fst (student_info st sid), snd (student_info st sid), CStr sid], 0) = Inr (rd, t)"
    and r: "r = rd @ [CInt t]"
    by (auto simp: student_row_def split: sum.splits)
  from add_periods_Inr[OF a] r show ?thesis by auto
qed

lemma result_rows_Inr:
  "result_rows st ps ids = Inr rows \<Longrightarrow>
     \<forall>r \<in> set rows. \<exists>sid \<in> set ids. student_row st ps sid = Inr r"
  by (induction ids arbitrary: rows) (auto split: sum.splits)

lemma build_table_Inr:
  assumes "build_table iter st ps = Inr table"
  shows "\<exists>rows. result_rows st ps (iter (all_participants st)) = Inr rows \<and>
     table = ([CStr COL_NAME, CStr COL_PHONE, CStr COL_ID] @ map CStr ps @ [CStr COL_TOTAL])
               # sort_key (\<lambda>x. - total_of x) rows"
  using assms by (auto simp: build_table_def split: sum.splits)

lemma process_Written:
  assumes "process_activity_data iter found summary um = Inr (Written table)"
  shows "build_table iter (ingest found summary um)
           (all_periods (snd (load_existing summary um))
              (processed_files (ingest found summary um))) = Inr table"
  using assms by (auto simp: process_activity_data_def Let_def split: if_splits sum.splits)

lemma table_rows:
  assumes "process_activity_data iter found summary um = Inr (Written table)"
    and "r \<in> set (tl table)"
  shows "\<exists>sid \<in> set (iter (all_participants (ingest found summary um))).
           student_row (ingest found summary um)
             (all_periods (snd (load_existing summary um))
                (processed_files (ingest found summary um))) sid = Inr r"
proof -
  let ?st = "ingest found summary um"
  let ?ps = "all_periods (snd (load_existing summary um)) (processed_files ?st)"
  from build_table_Inr[OF process_Written[OF assms(1)]] obtain rows where
    rows: "result_rows ?st ?ps (iter (all_participants ?st)) = Inr rows"
    and t: "tl table = sort_key (\<lambda>x. - total_of x) rows" by auto
  from assms(2) t have "r \<in> set rows" by simp
  with result_rows_Inr[OF rows] show ?thesis by blast
qed



text \<open>
  C6. In every table that is written, the data rows are in non-increasing order of their
  total, the total of a row being the number in its last cell.
\<close>

theorem rows_sorted_by_total_descending:
  assumes "process_activity_data iter found summary update_mode = Inr (Written table)"
  shows "sorted_wrt (\<lambda>a b. total_of a \<ge> total_of b) (tl table) \<and>
         (\<forall>r \<in> set (tl table). last r = CInt (total_of r))"
proof -
  let ?st = "ingest found summary update_mode"
  let ?ps = "all_periods (snd (load_existing summary update_mode)) (processed_files ?st)"
  from build_table_Inr[OF process_Written[OF assms]] obtain rows where
    t: "tl table = sort_key (\<lambda>x. - total_of x) rows" by auto
  have "sorted (map (\<lambda>x. - total_of x) (tl table))" unfolding t by simp
  then have s: "sorted_wrt (\<lambda>a b. total_of a \<ge> total_of b) (tl table)"
    by (simp add: sorted_wrt_map)
  have "last r = CInt (total_of r)" if "r \<in> set (tl table)" for r
  proof -
    from table_rows[OF assms that] obtain sid where "student_row ?st ?ps sid = Inr r" by blast
    from student_row_Inr[OF this] show ?thesis by (auto simp: total_of_def)
  qed
  with s show ?thesis by blast
qed

theorem rows_sorted_by_total_descending_witness:
  "process_activity_data (\<lambda>xs. xs) example_found None True = Inr (Written example_table) \<and>
   sorted_wrt (\<lambda>a b. total_of a \<ge> total_of b) (tl example_table) \<and>
   map total_of (tl example_table) = [70, 50, 10]"
proof -
  have "map total_of (tl example_table) = [70, 50, 10]"
    by (simp add: example_table_def total_of_def)
  with rows_sorted_by_total_descending[OF example_run] example_run show ?thesis by blast
qed

section \<open>The file loop: skipped files and known labels\<close>

lemma process_files_append:
  "process_files um ep (fs @ gs) st = process_files um ep gs (process_files um ep fs st)"
  by (induction fs arbitrary: st) (auto split: sum.splits)

lemma try_file_rejects:
  assumes "header_row wb = Inr headers" "\<not> CStr ` set required_columns \<subseteq> set headers"
  shows "try_file file wb st = Inr st"
proof -
  from assms(2) have "filter (\<lambda>col. CStr col \<notin> set headers) required_columns \<noteq> []"
    by (auto simp: filter_empty_conv)
  with assms(1) show ?thesis by (simp add: try_file_def Let_def)
qed

lemma try_file_error_any_state:
  assumes "try_file file wb st = Inl e"
  shows "try_file file wb st' = Inl e"
  using assms
  by (auto simp: try_file_def Let_def split: sum.splits if_splits option.splits)

lemma skip_rejected:
  assumes "\<And>st. try_file file wb st = Inr st \<or> (\<exists>e. try_file file wb st = Inl e)"
  shows "process_files um ep (before @ (file, wb) # after) st = process_files um ep (before @ after) st"
proof -
  have "process_files um ep ((file, wb) # after) s = process_files um ep after s" for s
    using assms[of s] by auto
  then show ?thesis by (simp add: process_files_append)
qed

lemma score_labels_update:
  "score_labels (AList.update k e al) \<subseteq> score_labels al \<union> fst ` set (scores e)"
  by (induction al) (auto simp: score_labels_def)

lemma score_labels_map_entry:
  "score_labels (AList.map_entry k (\<lambda>e. e\<lparr>scores := AList.update p v (scores e)\<rparr>) al)
     \<subseteq> insert p (score_labels al)"
proof (induction al)
  case Nil
  then show ?case by (simp add: score_labels_def)
next
  case (Cons a al)
  have "fst ` set (AList.update p v (scores (snd a))) = insert p (fst ` set (scores (snd a)))"
    by (simp add: dom_update)
  with Cons show ?case by (cases a) (auto simp: score_labels_def)
qed

lemma ingest_row_skip:
  "\<not> valid_row n p i s row \<Longrightarrow> ingest_row n p i s pkey st row = st"
  by (auto simp: valid_row_def ingest_row_def Let_def)

lemma ingest_row_valid:
  assumes "valid_row n p i s row"
  shows "ingest_row n p i s pkey st row =
     st\<lparr>all_participants := List.insert (str (row ! i)) (all_participants st),
        participant_info :=
          (if map_of (participant_info st) (str (row ! i)) = None
           then AList.update (str (row ! i)) (row ! n, row ! p) (participant_info st)
           else participant_info st),
        all_data :=
          AList.map_entry (str (row ! i))
            (\<lambda>e. e\<lparr>scores := AList.update pkey (or_zero (row ! s)) (scores e)\<rparr>)
            (if map_of (all_data st) (str (row ! i)) = None
             then AList.update (str (row ! i)) \<lparr>info = (row ! n, row ! p), scores = []\<rparr>
                    (all_data st)
             else all_data st)\<rparr>"
  using assms by (simp add: valid_row_def ingest_row_def Let_def)

lemma ingest_row_labels:
  "score_labels (all_data (ingest_row n p i s pkey st row)) \<subseteq> insert pkey (score_labels (all_data st))"
proof (cases "valid_row n p i s row")
  case False
  then show ?thesis by (auto simp: ingest_row_skip)
next
  case True
  let ?data = "if map_of (all_data st) (str (row ! i)) = None
             then AList.update (str (row ! i)) \<lparr>info = (row ! n, row ! p), scores = []\<rparr>
                    (all_data st)
             else all_data st"
  have a: "score_labels ?data \<subseteq> score_labels (all_data st)"
    using score_labels_update[of "str (row ! i)" "\<lparr>info = (row ! n, row ! p), scores = []\<rparr>" "all_data st"]
    by simp
  have "score_labels (all_data (ingest_row n p i s pkey st row)) \<subseteq> insert pkey (score_labels ?data)"
    unfolding ingest_row_valid[OF True] using score_labels_map_entry by simp
  with a show ?thesis by blast
qed

lemma ingest_row_processed [simp]:
  "processed_files (ingest_row n p i s pkey st row) = processed_files st"
  by (simp add: ingest_row_def Let_def)

lemma foldl_ingest_row_labels:
  "score_labels (all_data (foldl (ingest_row n p i s pkey) st rows)) \<subseteq> insert pkey (score_labels (all_data st))"
proof (induction rows arbitrary: st)
  case Nil show ?case by auto
next
  case (Cons r rows)
  from Cons[of "ingest_row n p i s pkey st r"] ingest_row_labels[of n p i s pkey st r]
  show ?case by auto
qed

lemma foldl_ingest_row_processed [simp]:
  "processed_files (foldl (ingest_row n p i s pkey) st rows) = processed_files st"
  by (induction rows arbitrary: st) auto

lemma try_file_Inr:
  assumes "try_file f wb st = Inr st'"
  obtains "st' = st"
  | n p i s rows where "st' = (foldl (ingest_row n p i s (period_key f)) st rows)
        \<lparr>processed_files := processed_files st @ [f]\<rparr>"
  using assms
  by (auto simp: try_file_def Let_def split: sum.splits if_splits option.splits)

lemma try_file_Inr_labels:
  assumes "try_file f wb st = Inr st'"
  shows "st' = st \<or>
    (processed_files st' = processed_files st @ [f] \<and>
     score_labels (all_data st') \<subseteq> insert (period_key f) (score_labels (all_data st)))"
  using assms
proof (cases rule: try_file_Inr)
  case 1
  then show ?thesis by simp
next
  case (2 n p i s rows)
  with foldl_ingest_row_labels[of n p i s "period_key f" st rows]
  show ?thesis by simp
qed

lemma process_files_labels:
  assumes "score_labels (all_data st) \<subseteq> set ep \<union> period_key ` set (processed_files st)"
  shows "score_labels (all_data (process_files um ep files st))
           \<subseteq> set ep \<union> period_key ` set (processed_files (process_files um ep files st))"
  using assms
proof (induction files arbitrary: st)
  case Nil
  then show ?case by simp
next
  case (Cons a files)
  obtain f wb where a: "a = (f, wb)" by (cases a)
  show ?case
  proof (cases "period_key f \<in> set ep \<and> um")
    case True
    with a Cons.IH[OF Cons.prems] show ?thesis by simp
  next
    case False
    show ?thesis
    proof (cases "try_file f wb st")
      case (Inl e)
      with a False have "process_files um ep (a # files) st = process_files um ep files st"
        by auto
      with Cons.IH[OF Cons.prems] show ?thesis by simp
    next
      case (Inr st')
      have "score_labels (all_data st') \<subseteq> set ep \<union> period_key ` set (processed_files st')"
      proof (cases "st' = st")
        case True
        with Cons.prems show ?thesis by simp
      next
        case False
        with try_file_Inr_labels[OF Inr]
        have p: "processed_files st' = processed_files st @ [f]"
          and l: "score_labels (all_data st') \<subseteq> insert (period_key f) (score_labels (all_data st))"
          by simp_all
        from Cons.prems have "insert (period_key f) (score_labels (all_data st))
            \<subseteq> set ep \<union> period_key ` set (processed_files st @ [f])" by auto
        with l p show ?thesis by (metis subset_trans)
      qed
      moreover from a Inr False
      have "process_files um ep (a # files) st = process_files um ep files st'" by auto
      ultimately show ?thesis using Cons.IH[of st'] by simp
    qed
  qed
qed

lemma read_scores_keys:
  "read_scores headers row pcs sc = Inr sc' \<Longrightarrow> fst ` set sc' \<subseteq> fst ` set sc \<union> set pcs"
proof (induction pcs arbitrary: sc)
  case Nil then show ?case by auto
next
  case (Cons p pcs)
  from Cons.prems obtain k where k: "index headers (CStr p) = Some k" by (auto split: option.splits)
  show ?case
  proof (cases "k < length row")
    case True
    with k Cons.prems have "read_scores headers row pcs (AList.update p (or_zero (row ! k)) sc) = Inr sc'" by simp
    from Cons.IH[OF this] show ?thesis by (auto simp: dom_update)
  next
    case False
    with k Cons.prems have "read_scores headers row pcs sc = Inr sc'" by simp
    from Cons.IH[OF this] show ?thesis by auto
  qed
qed

lemma summary_row_labels:
  assumes "summary_row headers n p i t pcs sd row = Inr sd'" "score_labels sd \<subseteq> set pcs"
  shows "score_labels sd' \<subseteq> set pcs"
proof -
  from assms(1) have "sd' = sd \<or> (\<exists>sc nm. read_scores headers row pcs [] = Inr sc \<and>
      sd' = AList.update (str (row ! i)) \<lparr>info = nm, scores = sc\<rparr> sd)"
    by (auto simp: summary_row_def Let_def split: if_splits sum.splits)
  then show ?thesis
  proof
    assume "sd' = sd" with assms(2) show ?thesis by simp
  next
    assume "\<exists>sc nm. read_scores headers row pcs [] = Inr sc \<and>
      sd' = AList.update (str (row ! i)) \<lparr>info = nm, scores = sc\<rparr> sd"
    then obtain sc nm where sc: "read_scores headers row pcs [] = Inr sc"
      and sd': "sd' = AList.update (str (row ! i)) \<lparr>info = nm, scores = sc\<rparr> sd" by blast
    from read_scores_keys[OF sc] have "fst ` set sc \<subseteq> set pcs" by simp
    with score_labels_update[of "str (row ! i)" "\<lparr>info = nm, scores = sc\<rparr>" sd] assms(2) sd'
    show ?thesis by auto
  qed
qed

lemma summary_rows_labels:
  "summary_rows headers n p i t pcs sd rows = Inr sd' \<Longrightarrow> score_labels sd \<subseteq> set pcs
     \<Longrightarrow> score_labels sd' \<subseteq> set pcs"
proof (induction rows arbitrary: sd)
  case Nil then show ?case by simp
next
  case (Cons r rows)
  from Cons.prems(1) obtain sd1 where 1: "summary_row headers n p i t pcs sd r = Inr sd1"
    and 2: "summary_rows headers n p i t pcs sd1 rows = Inr sd'"
    by (auto split: sum.splits)
  from Cons.IH[OF 2 summary_row_labels[OF 1 Cons.prems(2)]] show ?case .
qed

lemma load_summary_Inr:
  assumes "load_summary wb = Inr (sd, pcs)"
  obtains "sd = []" "pcs = []"
  | headers n p i t rows where "header_row wb = Inr headers"
      "index headers (CStr COL_NAME) = Some n" "index headers (CStr COL_PHONE) = Some p"
      "index headers (CStr COL_ID) = Some i" "index headers (CStr COL_TOTAL) = Some t"
      "period_columns [n, p, i, t] 0 headers = Inr pcs"
      "data_rows wb = Inr rows"
      "summary_rows headers n p i t pcs [] rows = Inr sd"
  using assms
  by (auto simp: load_summary_def split: sum.splits option.splits)

lemma read_existing_summary_labels:
  "score_labels (fst (read_existing_summary wb)) \<subseteq> set (snd (read_existing_summary wb))"
proof (cases "load_summary wb")
  case (Inl e)
  then show ?thesis by (simp add: read_existing_summary_def score_labels_def)
next
  case (Inr r)
  obtain sd pcs where r: "r = (sd, pcs)" by (cases r)
  from Inr r have l: "load_summary wb = Inr (sd, pcs)" by simp
  have "score_labels sd \<subseteq> set pcs"
    using l
  proof (cases rule: load_summary_Inr)
    case 1
    then show ?thesis by (simp add: score_labels_def)
  next
    case (2 headers n p i t rows)
    from summary_rows_labels[OF 2(8)] show ?thesis by (simp add: score_labels_def)
  qed
  with l show ?thesis by (simp add: read_existing_summary_def)
qed

lemma load_existing_labels:
  "score_labels (fst (load_existing summary um)) \<subseteq> set (snd (load_existing summary um))"
  using read_existing_summary_labels
  by (auto simp: load_existing_def score_labels_def split: option.splits)

lemma ingest_labels:
  "score_labels (all_data (ingest found summary um))
     \<subseteq> set (all_periods (snd (load_existing summary um)) (processed_files (ingest found summary um)))"
proof -
  have "score_labels (all_data (initial_state (fst (load_existing summary um))))
      \<subseteq> set (snd (load_existing summary um)) \<union> period_key ` set (processed_files (initial_state (fst (load_existing summary um))))"
    using load_existing_labels[of summary um] by (simp add: initial_state_def)
  from process_files_labels[OF this] show ?thesis
    by (simp add: ingest_def all_periods_def)
qed


text \<open>
  C7. A file whose header row lacks one of the four required columns leaves the state as
  it is and is not recorded as processed; the loop over a batch that contains it ends in
  the same state as the loop over the batch without it, so every other file is processed
  as if the rejected file were not there.
\<close>

theorem missing_column_rejects_file:
  assumes "header_row wb = Inr headers"
    and "\<not> CStr ` set required_columns \<subseteq> set headers"
  shows "try_file f wb st = Inr st \<and>
         process_files um ep [(f, wb)] st = st \<and>
         process_files um ep (pre @ (f, wb) # post) st = process_files um ep (pre @ post) st"
proof -
  have r: "try_file f wb s = Inr s" for s
    using try_file_rejects[OF assms] .
  then have "process_files um ep (pre @ (f, wb) # post) st = process_files um ep (pre @ post) st"
    by (intro skip_rejected) simp
  with r[of st] show ?thesis by simp
qed

theorem missing_column_rejects_file_witness:
  "header_row example_no_id = Inr [CStr COL_NAME, CStr COL_PHONE, CStr COL_TOTAL] \<and>
   \<not> CStr ` set required_columns \<subseteq> set [CStr COL_NAME, CStr COL_PHONE, CStr COL_TOTAL] \<and>
   process_files True [] [(''S1.xlsx'', example_S1), (''S2.xlsx'', example_no_id),
                          (''S3.xlsx'', example_S2)] (initial_state [])
     = process_files True [] [(''S1.xlsx'', example_S1), (''S3.xlsx'', example_S2)]
         (initial_state []) \<and>
   processed_files (process_files True [] [(''S1.xlsx'', example_S1),
       (''S2.xlsx'', example_no_id), (''S3.xlsx'', example_S2)] (initial_state []))
     = [''S1.xlsx'', ''S3.xlsx'']"
proof -
  have h: "header_row example_no_id = Inr [CStr COL_NAME, CStr COL_PHONE, CStr COL_TOTAL]"
    by (simp add: example_no_id_def)
  have m: "\<not> CStr ` set required_columns \<subseteq> set [CStr COL_NAME, CStr COL_PHONE, CStr COL_TOTAL]"
    by (simp add: required_columns_def COL_ID_def COL_NAME_def COL_PHONE_def COL_TOTAL_def)
  have p: "processed_files (process_files True [] [(''S1.xlsx'', example_S1),
       (''S3.xlsx'', example_S2)] (initial_state [])) = [''S1.xlsx'', ''S3.xlsx'']"
    by code_simp
  from missing_column_rejects_file[OF h m, where pre = "[(''S1.xlsx'', example_S1)]"
      and post = "[(''S3.xlsx'', example_S2)]" and f = "''S2.xlsx''" and um = True
      and ep = "[]" and st = "initial_state []"] h m p
  show ?thesis by simp
qed

text \<open>
  C1. When an error is raised while a period file is opened or parsed, it is raised
  whatever the state is, the state stays as it was and the file is not recorded as
  processed; the loop over a batch that contains the file ends in the same state as the
  loop over the batch without it. After the loop of every run, each period label that a
  participant's score mapping refers to is one of the known labels (the labels of the
  loaded summary and of the processed files).
\<close>

theorem failing_file_is_skipped:
  assumes "try_file f wb st0 = Inl e"
  shows "(\<forall>st. try_file f wb st = Inl e) \<and>
         process_files um ep [(f, wb)] st = st \<and>
         process_files um ep (pre @ (f, wb) # post) st = process_files um ep (pre @ post) st \<and>
         score_labels (all_data (ingest found summary update_mode))
           \<subseteq> set (all_periods (snd (load_existing summary update_mode))
                   (processed_files (ingest found summary update_mode)))"
proof -
  have r: "try_file f wb s = Inl e" for s
    using try_file_error_any_state[OF assms] .
  then have "process_files um ep (pre @ (f, wb) # post) st = process_files um ep (pre @ post) st"
    by (intro skip_rejected) blast
  with r ingest_labels[of found summary update_mode] show ?thesis by simp
qed

theorem failing_file_is_skipped_witness:
  "try_file ''S2.xlsx'' Unreadable (initial_state []) = Inl LoadError \<and>
   process_files True [] [(''S1.xlsx'', example_S1), (''S2.xlsx'', Unreadable),
                          (''S3.xlsx'', example_S2)] (initial_state [])
     = process_files True [] [(''S1.xlsx'', example_S1), (''S3.xlsx'', example_S2)]
         (initial_state []) \<and>
   processed_files (process_files True [] [(''S1.xlsx'', example_S1),
       (''S2.xlsx'', Unreadable), (''S3.xlsx'', example_S2)] (initial_state []))
     = [''S1.xlsx'', ''S3.xlsx''] \<and>
   score_labels (all_data (ingest [(''S1.xlsx'', example_S1), (''S2.xlsx'', Unreadable),
       (''S3.xlsx'', example_S2)] None True)) \<subseteq> {''S1'', ''S3''}"
proof -
  have h: "try_file ''S2.xlsx'' Unreadable (initial_state []) = Inl LoadError"
    by (simp add: try_file_def)
  have p: "processed_files (process_files True [] [(''S1.xlsx'', example_S1),
       (''S3.xlsx'', example_S2)] (initial_state [])) = [''S1.xlsx'', ''S3.xlsx'']"
    by code_simp
  have a: "set (all_periods (snd (load_existing None True))
             (processed_files (ingest [(''S1.xlsx'', example_S1), (''S2.xlsx'', Unreadable),
                (''S3.xlsx'', example_S2)] None True))) = {''S1'', ''S3''}"
    by code_simp
  from failing_file_is_skipped[OF h, where pre = "[(''S1.xlsx'', example_S1)]"
      and post = "[(''S3.xlsx'', example_S2)]" and um = True and ep = "[]"
      and st = "initial_state []"
      and found = "[(''S1.xlsx'', example_S1), (''S2.xlsx'', Unreadable),
                    (''S3.xlsx'', example_S2)]"
      and summary = None and update_mode = True] h p a
  show ?thesis by simp
qed


section \<open>Period labels\<close>

lemma replace_S: "replace ''S'' '''' s = filter (\<lambda>c. c \<noteq> CHR ''S'') s"
proof (induction s)
  case Nil
  show ?case by (simp add: replace.simps)
next
  case (Cons c s)
  show ?case
    by (subst replace.simps) (cases "c = CHR ''S''"; simp add: Cons)
qed

lemma no_early_match:
  assumes "\<forall>u v. c # m \<noteq> u @ ''.xlsx'' @ v"
  shows "take 5 (c # m @ ''.xlsx'') \<noteq> ''.xlsx''"
proof
  assume t: "take 5 (c # m @ ''.xlsx'') = ''.xlsx''"
  show False
  proof (cases "length m \<ge> 4")
    case True
    then have "take 5 (c # m @ ''.xlsx'') = take 5 (c # m)" by simp
    with t have "c # m = [] @ ''.xlsx'' @ drop 5 (c # m)"
      by (metis append_Nil append_take_drop_id)
    with assms show False by blast
  next
    case False
    then consider "m = []" | a where "m = [a]" | a b where "m = [a, b]"
      | a b d where "m = [a, b, d]"
      by (cases m; simp; rename_tac y ys; case_tac ys; simp; rename_tac z zs; case_tac zs; simp;
          rename_tac w ws; case_tac ws; simp)
    then show False using t by cases auto
  qed
qed

lemma replace_step:
  assumes "take 5 (c # s) \<noteq> ''.xlsx''"
  shows "replace ''.xlsx'' '''' (c # s) = c # replace ''.xlsx'' '''' s"
proof -
  have l: "length ''.xlsx'' = 5" by simp
  show ?thesis
    by (subst replace.simps) (simp only: l assms if_False list.sel list.distinct)
qed

lemma replace_ext:
  "\<forall>u v. m \<noteq> u @ ''.xlsx'' @ v \<Longrightarrow> replace ''.xlsx'' '''' (m @ ''.xlsx'') = m"
proof (induction m)
  case Nil
  show ?case by (simp add: replace.simps)
next
  case (Cons c m)
  have "\<forall>u v. m \<noteq> u @ ''.xlsx'' @ v"
  proof (intro allI notI)
    fix u v assume "m = u @ ''.xlsx'' @ v"
    then have "c # m = (c # u) @ ''.xlsx'' @ v" by simp
    with Cons.prems show False by blast
  qed
  from Cons.IH[OF this] have ih: "replace ''.xlsx'' '''' (m @ ''.xlsx'') = m" .
  from replace_step[OF no_early_match[OF Cons.prems]] ih show ?case by simp
qed

lemma period_key_wildcard:
  assumes "CHR ''S'' \<notin> set m" "\<forall>u v. m \<noteq> u @ ''.xlsx'' @ v"
  shows "period_key (''S'' @ m @ ''.xlsx'') = ''S'' @ m"
proof -
  from assms(1) have "filter (\<lambda>c. c \<noteq> CHR ''S'') m = m" by (auto simp: filter_id_conv)
  then have "replace ''S'' '''' (''S'' @ m @ ''.xlsx'') = m @ ''.xlsx''"
    by (simp add: replace_S)
  with replace_ext[OF assms(2)] show ?thesis by (simp add: period_key_def)
qed

lemma replace_length: "old \<noteq> [] \<Longrightarrow> length (replace old [] s) \<le> length s"
proof (induction "length s" arbitrary: s rule: less_induct)
  case less
  show ?case
  proof (cases "s = []")
    case True
    with less.prems show ?thesis by (simp add: replace.simps)
  next
    case False
    show ?thesis
    proof (cases "take (length old) s = old")
      case True
      with less.prems False have "replace old [] s = replace old [] (drop (length old) s)"
        by (subst replace.simps) simp
      moreover from less.prems False have "length (drop (length old) s) < length s" by simp
      ultimately show ?thesis using less.hyps[of "drop (length old) s"] less.prems by simp
    next
      case F: False
      with less.prems False have "replace old [] s = hd s # replace old [] (tl s)"
        by (subst replace.simps) simp
      moreover from False have "length (tl s) < length s" by simp
      moreover from False have "Suc (length (tl s)) = length s" by (cases s) simp_all
      ultimately show ?thesis using less.hyps[of "tl s"] less.prems by simp
    qed
  qed
qed

lemma replace_occurrence:
  "old \<noteq> [] \<Longrightarrow> s = u @ old @ v \<Longrightarrow> length (replace old [] s) + length old \<le> length s"
proof (induction "length s" arbitrary: s u rule: less_induct)
  case less
  from less.prems have ne: "s \<noteq> []" by simp
  show ?case
  proof (cases "take (length old) s = old")
    case True
    with less.prems ne have "replace old [] s = replace old [] (drop (length old) s)"
      by (subst replace.simps) simp
    moreover from less.prems have "length old \<le> length s" by simp
    ultimately show ?thesis
      using replace_length[OF less.prems(1), of "drop (length old) s"] by simp
  next
    case False
    with less.prems have "u \<noteq> []" by auto
    with less.prems have tl: "tl s = tl u @ old @ v" by simp
    from False less.prems ne have "replace old [] s = hd s # replace old [] (tl s)"
      by (subst replace.simps) simp
    moreover from ne have "length (tl s) < length s" by simp
    moreover from ne have "Suc (length (tl s)) = length s" by (cases s) simp_all
    ultimately show ?thesis using less.hyps[of "tl s" "tl u"] less.prems(1) tl by simp
  qed
qed

lemma replace_two_occurrences:
  "old \<noteq> [] \<Longrightarrow> s = u @ old @ v @ old @ x
     \<Longrightarrow> length (replace old [] s) + 2 * length old \<le> length s"
proof (induction "length s" arbitrary: s u rule: less_induct)
  case less
  from less.prems have ne: "s \<noteq> []" by simp
  show ?case
  proof (cases "take (length old) s = old")
    case True
    with less.prems ne have r: "replace old [] s = replace old [] (drop (length old) s)"
      by (subst replace.simps) simp
    have "drop (length old) s = drop (length old) (u @ old @ v) @ old @ x"
      using less.prems(2) by simp
    from replace_occurrence[OF less.prems(1) this] r less.prems(2) show ?thesis by simp
  next
    case False
    with less.prems have "u \<noteq> []" by auto
    with less.prems have tl: "tl s = tl u @ old @ v @ old @ x" by simp
    from False less.prems ne have "replace old [] s = hd s # replace old [] (tl s)"
      by (subst replace.simps) simp
    moreover from ne have "length (tl s) < length s" by simp
    moreover from ne have "Suc (length (tl s)) = length s" by (cases s) simp_all
    ultimately show ?thesis using less.hyps[of "tl s" "tl u"] less.prems(1) tl by simp
  qed
qed

text \<open>
  C8 (as amended). For a file name made of the prefix \<open>S\<close>, a wildcard text and the
  suffix \<open>.xlsx\<close>, the derived period label is the prefix followed by the wildcard text
  exactly when the wildcard text contains no \<open>S\<close> and no occurrence of \<open>.xlsx\<close>: the
  code removes every \<open>S\<close> and every \<open>.xlsx\<close> of the name, not only the prefix and
  the suffix.
\<close>

theorem label_is_prefix_plus_wildcard_iff:
  "period_key (''S'' @ m @ ''.xlsx'') = ''S'' @ m \<longleftrightarrow>
     CHR ''S'' \<notin> set m \<and> (\<forall>u v. m \<noteq> u @ ''.xlsx'' @ v)"
proof
  assume "CHR ''S'' \<notin> set m \<and> (\<forall>u v. m \<noteq> u @ ''.xlsx'' @ v)"
  then show "period_key (''S'' @ m @ ''.xlsx'') = ''S'' @ m" using period_key_wildcard by blast
next
  assume a: "period_key (''S'' @ m @ ''.xlsx'') = ''S'' @ m"
  let ?f = "filter (\<lambda>c. c \<noteq> CHR ''S'') m"
  have s: "replace ''S'' '''' (''S'' @ m @ ''.xlsx'') = ?f @ ''.xlsx''"
    by (simp add: replace_S)
  with a have r: "replace ''.xlsx'' '''' (?f @ ''.xlsx'') = m" by (simp add: period_key_def)
  have "length (replace ''.xlsx'' '''' (?f @ ''.xlsx'')) + length ''.xlsx'' \<le> length (?f @ ''.xlsx'')"
    by (rule replace_occurrence[where u = ?f and v = "[]"]) simp_all
  with r have "length m \<le> length ?f" by simp
  moreover have "length ?f + length (filter (\<lambda>c. \<not> c \<noteq> CHR ''S'') m) = length m"
    by (rule sum_length_filter_compl)
  ultimately have "length (filter (\<lambda>c. \<not> c \<noteq> CHR ''S'') m) = 0" by arith
  then have "filter (\<lambda>c. \<not> c \<noteq> CHR ''S'') m = []" by (simp only: length_0_conv)
  then have noS: "CHR ''S'' \<notin> set m" by (auto simp: filter_empty_conv)
  then have f: "?f = m" by (auto simp: filter_id_conv)
  have "m \<noteq> u @ ''.xlsx'' @ v" for u v
  proof
    assume m: "m = u @ ''.xlsx'' @ v"
    have "length (replace ''.xlsx'' '''' (m @ ''.xlsx'')) + 2 * length ''.xlsx'' \<le> length (m @ ''.xlsx'')"
      by (rule replace_two_occurrences[where u = u and v = v and x = "[]"]) (simp_all add: m)
    with r f show False by simp
  qed
  with noS show "CHR ''S'' \<notin> set m \<and> (\<forall>u v. m \<noteq> u @ ''.xlsx'' @ v)" by blast
qed

theorem label_is_prefix_plus_wildcard_iff_witness:
  "period_key (''S'' @ ''12'' @ ''.xlsx'') = ''S'' @ ''12'' \<and>
   CHR ''S'' \<notin> set ''12'' \<and> (\<forall>u v. ''12'' \<noteq> u @ ''.xlsx'' @ v)"
proof -
  have "period_key (''S'' @ ''12'' @ ''.xlsx'') = ''S'' @ ''12''"
    by (simp add: period_key_def replace.simps)
  with label_is_prefix_plus_wildcard_iff[of "''12''"] show ?thesis by blast
qed

text \<open>
  The file \<open>SS1.xlsx\<close> matches the pattern with the wildcard text \<open>S1\<close>; its label is
  \<open>S1\<close>, not \<open>SS1\<close>.
\<close>

theorem label_drops_inner_S:
  "period_key (''S'' @ ''S1'' @ ''.xlsx'') = ''S1'' \<and>
   period_key (''S'' @ ''S1'' @ ''.xlsx'') \<noteq> ''S'' @ ''S1''"
  by (simp add: period_key_def replace.simps)

section \<open>Rows without an identifier\<close>

text \<open>
  C2. The identifier is coerced with \<open>str\<close> before it is tested, and \<open>str(None)\<close> is the
  text \<open>None\<close>: a row whose identifier cell is absent is not skipped. In a period file it
  becomes the participant \<open>None\<close> with a row of its own in the table; in an existing
  summary it is loaded as the participant \<open>None\<close>. Only an identifier cell that holds the
  empty text is skipped.
\<close>

theorem absent_identifier_row_is_ingested:
  "all_participants (ingest [(''S1.xlsx'', example_absent_id)] None True) = [''None''] \<and>
   process_activity_data as_inserted [(''S1.xlsx'', example_absent_id)] None True
     = Inr (Written [[CStr COL_NAME, CStr COL_PHONE, CStr COL_ID, CStr ''S1'', CStr COL_TOTAL],
                     [CStr ''Z'', CNone, CStr ''None'', CInt 7, CInt 7]]) \<and>
   map fst (fst (read_existing_summary
      (Sheet [[CStr COL_NAME, CStr COL_PHONE, CStr COL_ID, CStr COL_TOTAL],
              [CStr ''Z'', CNone, CNone, CInt 7]]))) = [''None''] \<and>
   all_participants (ingest [(''S1.xlsx'',
      Sheet [example_header, [CStr ''Z'', CNone, CStr '''', CInt 7]])] None True) = []"
  by code_simp

section \<open>Identity attributes\<close>

lemma index_None: "index xs x = None \<longleftrightarrow> x \<notin> set xs"
  by (induction xs) auto

lemma index_Some: "index xs x = Some k \<Longrightarrow> k < length xs \<and> xs ! k = x"
  by (induction xs arbitrary: k) (auto split: if_splits)

lemma map_of_snoc:
  "map_of (al @ [(k, v)]) = (if map_of al k = None then (map_of al)(k \<mapsto> v) else map_of al)"
  by (auto simp: fun_eq_iff map_add_def split: option.splits)

lemma map_of_append_cong:
  "map_of a = map_of b \<Longrightarrow> map_of (a @ x) = map_of (b @ x)"
  by simp

lemma ingest_row_info:
  "map_of (participant_info (ingest_row n p i s pkey st row))
     = map_of (participant_info st
               @ (if valid_row n p i s row then [(str (row ! i), row ! n, row ! p)] else []))"
proof (cases "valid_row n p i s row")
  case False
  then show ?thesis by (simp add: ingest_row_skip)
next
  case True
  show ?thesis
    unfolding ingest_row_valid[OF True] using True
    by (simp add: map_of_snoc update_conv' del: map_of_append)
qed

lemma foldl_ingest_row_info:
  "map_of (participant_info (foldl (ingest_row n p i s pkey) st rows))
     = map_of (participant_info st
               @ map (\<lambda>row. (str (row ! i), row ! n, row ! p)) (filter (valid_row n p i s) rows))"
proof (induction rows arbitrary: st)
  case Nil
  show ?case by simp
next
  case (Cons r rows)
  have "map_of (participant_info (foldl (ingest_row n p i s pkey) st (r # rows)))
      = map_of (participant_info (ingest_row n p i s pkey st r)
               @ map (\<lambda>row. (str (row ! i), row ! n, row ! p)) (filter (valid_row n p i s) rows))"
    using Cons[of "ingest_row n p i s pkey st r"] by simp
  also have "\<dots> = map_of ((participant_info st
               @ (if valid_row n p i s r then [(str (r ! i), r ! n, r ! p)] else []))
               @ map (\<lambda>row. (str (row ! i), row ! n, row ! p)) (filter (valid_row n p i s) rows))"
    by (rule map_of_append_cong) (rule ingest_row_info)
  also have "\<dots> = map_of (participant_info st
               @ map (\<lambda>row. (str (row ! i), row ! n, row ! p)) (filter (valid_row n p i s) (r # rows)))"
    by simp
  finally show ?case .
qed

lemma try_file_info:
  "map_of (participant_info (case try_file f wb st of Inl e \<Rightarrow> st | Inr st' \<Rightarrow> st'))
     = map_of (participant_info st @ sightings wb)"
proof (cases "header_row wb")
  case (Inl e)
  then show ?thesis by (simp add: try_file_def sightings_def)
next
  case (Inr headers)
  show ?thesis
  proof (cases "CStr ` set required_columns \<subseteq> set headers")
    case False
    then have "index headers (CStr COL_NAME) = None \<or> index headers (CStr COL_PHONE) = None
        \<or> index headers (CStr COL_ID) = None \<or> index headers (CStr COL_TOTAL) = None"
      by (auto simp: index_None required_columns_def)
    then have "sightings wb = []" using Inr by (auto simp: sightings_def split: option.splits)
    with try_file_rejects[OF Inr False] show ?thesis by simp
  next
    case True
    then have m: "filter (\<lambda>col. CStr col \<notin> set headers) required_columns = []"
      by (auto simp: filter_empty_conv)
    from True obtain n p i s where ix: "index headers (CStr COL_NAME) = Some n"
      "index headers (CStr COL_PHONE) = Some p" "index headers (CStr COL_ID) = Some i"
      "index headers (CStr COL_TOTAL) = Some s"
      using index_None[of headers] by (fastforce simp: required_columns_def)
    show ?thesis
    proof (cases "data_rows wb")
      case (Inl e)
      with Inr m ix show ?thesis by (simp add: try_file_def sightings_def)
    next
      case r: (Inr rows)
      with Inr m ix show ?thesis
        by (simp add: try_file_def sightings_def foldl_ingest_row_info del: map_of_append)
    qed
  qed
qed

lemma process_files_info:
  "map_of (participant_info (process_files um ep files st))
     = map_of (participant_info st
               @ concat (map (\<lambda>(f, wb). sightings wb) (considered um ep files)))"
proof (induction files arbitrary: st)
  case Nil
  show ?case by (simp add: considered_def)
next
  case (Cons a files)
  obtain f wb where a: "a = (f, wb)" by (cases a)
  show ?case
  proof (cases "period_key f \<in> set ep \<and> um")
    case True
    with a Cons[of st] show ?thesis by (simp add: considered_def)
  next
    case False
    let ?st' = "case try_file f wb st of Inl e \<Rightarrow> st | Inr st' \<Rightarrow> st'"
    from a False have "process_files um ep (a # files) st = process_files um ep files ?st'"
      by (auto split: sum.splits)
    then have "map_of (participant_info (process_files um ep (a # files) st))
        = map_of (participant_info ?st'
               @ concat (map (\<lambda>(f, wb). sightings wb) (considered um ep files)))"
      using Cons[of ?st'] by simp
    also have "\<dots> = map_of ((participant_info st @ sightings wb)
               @ concat (map (\<lambda>(f, wb). sightings wb) (considered um ep files)))"
      by (rule map_of_append_cong) (rule try_file_info)
    also have "\<dots> = map_of (participant_info st
               @ concat (map (\<lambda>(f, wb). sightings wb) (considered um ep (a # files))))"
      using a False by (simp add: considered_def)
    finally show ?thesis .
  qed
qed

lemma foldl_update_keys:
  "fst ` set (foldl (\<lambda>pi (student_id, data). AList.update student_id (g data) pi) acc xs)
     = fst ` set acc \<union> fst ` set xs"
proof (induction xs arbitrary: acc)
  case Nil
  show ?case by simp
next
  case (Cons a xs)
  obtain k d where a: "a = (k, d)" by (cases a)
  have "fst ` set (AList.update k (g d) acc) = insert k (fst ` set acc)"
    by (simp add: dom_update)
  with Cons[of "AList.update k (g d) acc"] a show ?case by auto
qed

lemma initial_state_known:
  "set (all_participants (initial_state ed)) \<subseteq> fst ` set (participant_info (initial_state ed))"
  by (simp add: initial_state_def foldl_update_keys)

lemma ingest_row_known:
  assumes "set (all_participants st) \<subseteq> fst ` set (participant_info st)"
  shows "set (all_participants (ingest_row n p i s pkey st row))
           \<subseteq> fst ` set (participant_info (ingest_row n p i s pkey st row))"
proof (cases "valid_row n p i s row")
  case False
  with assms show ?thesis by (simp add: ingest_row_skip)
next
  case True
  have "map_of (participant_info st) (str (row ! i)) \<noteq> None
          \<Longrightarrow> str (row ! i) \<in> fst ` set (participant_info st)"
    by (auto simp: map_of_eq_None_iff)
  with assms show ?thesis
    unfolding ingest_row_valid[OF True] by (auto simp: dom_update)
qed

lemma foldl_ingest_row_known:
  "set (all_participants st) \<subseteq> fst ` set (participant_info st) \<Longrightarrow>
   set (all_participants (foldl (ingest_row n p i s pkey) st rows))
     \<subseteq> fst ` set (participant_info (foldl (ingest_row n p i s pkey) st rows))"
  by (induction rows arbitrary: st) (simp_all add: ingest_row_known)

lemma try_file_known:
  assumes "try_file f wb st = Inr st'" "set (all_participants st) \<subseteq> fst ` set (participant_info st)"
  shows "set (all_participants st') \<subseteq> fst ` set (participant_info st')"
  using assms(1)
proof (cases rule: try_file_Inr)
  case 1
  with assms(2) show ?thesis by simp
next
  case (2 n p i s rows)
  with foldl_ingest_row_known[OF assms(2), of n p i s "period_key f" rows] show ?thesis by simp
qed

lemma process_files_Cons:
  "process_files um ep ((f, wb) # files) st =
     process_files um ep files
       (if period_key f \<in> set ep \<and> um then st
        else (case try_file f wb st of Inl e \<Rightarrow> st | Inr st' \<Rightarrow> st'))"
  by (auto split: sum.splits)

lemma process_files_known:
  "set (all_participants st) \<subseteq> fst ` set (participant_info st) \<Longrightarrow>
   set (all_participants (process_files um ep files st))
     \<subseteq> fst ` set (participant_info (process_files um ep files st))"
proof (induction files arbitrary: st)
  case Nil
  then show ?case by simp
next
  case (Cons a files)
  obtain f wb where a: "a = (f, wb)" by (cases a)
  let ?st' = "if period_key f \<in> set ep \<and> um then st
        else (case try_file f wb st of Inl e \<Rightarrow> st | Inr st' \<Rightarrow> st')"
  have "set (all_participants ?st') \<subseteq> fst ` set (participant_info ?st')"
    using Cons.prems try_file_known[of f wb st] by (auto split: sum.splits)
  from Cons.IH[OF this] show ?case unfolding a process_files_Cons .
qed

lemma ingest_known:
  "set (all_participants (ingest found summary um))
     \<subseteq> fst ` set (participant_info (ingest found summary um))"
  unfolding ingest_def by (rule process_files_known) (rule initial_state_known)

section \<open>Period columns of an existing summary\<close>

lemma fixed_not_S:
  "\<not> startswith COL_NAME ''S''" "\<not> startswith COL_PHONE ''S''"
  "\<not> startswith COL_ID ''S''" "\<not> startswith COL_TOTAL ''S''"
  by (simp_all add: startswith_def COL_NAME_def COL_PHONE_def COL_ID_def COL_TOTAL_def)

lemma set_S_headers: "h \<in> set (S_headers hs) \<longleftrightarrow> CStr h \<in> set hs \<and> startswith h ''S''"
  by (induction hs rule: S_headers.induct) auto

lemma period_columns_Inr:
  "period_columns fixed i hs = Inr ps \<Longrightarrow>
   (\<forall>j < length hs. i + j \<in> set fixed \<longrightarrow> (\<forall>s. hs ! j = CStr s \<longrightarrow> \<not> startswith s ''S''))
   \<Longrightarrow> ps = S_headers hs"
proof (induction hs arbitrary: i ps)
  case Nil
  then show ?case by simp
next
  case (Cons c hs)
  from Cons.prems(1) obtain s where c: "c = CStr s" by (cases c) auto
  with Cons.prems(1) obtain ps' where ps': "period_columns fixed (Suc i) hs = Inr ps'"
    and ps: "ps = (if startswith s ''S'' \<and> i \<notin> set fixed then s # ps' else ps')"
    by (auto split: sum.splits)
  have "\<forall>j < length hs. Suc i + j \<in> set fixed \<longrightarrow> (\<forall>s. hs ! j = CStr s \<longrightarrow> \<not> startswith s ''S'')"
  proof (intro allI impI)
    fix j s' assume j: "j < length hs" "Suc i + j \<in> set fixed" "hs ! j = CStr s'"
    with Cons.prems(2)[rule_format, of "Suc j" s'] show "\<not> startswith s' ''S''" by simp
  qed
  from Cons.IH[OF ps' this] have ih: "ps' = S_headers hs" .
  from Cons.prems(2)[rule_format, of 0 s] c have "i \<in> set fixed \<Longrightarrow> \<not> startswith s ''S''"
    by simp
  with ps ih c show ?case by auto
qed

lemma period_columns_total:
  "\<forall>c \<in> set hs. \<exists>s. c = CStr s \<Longrightarrow> \<exists>ps. period_columns fixed i hs = Inr ps"
proof (induction hs arbitrary: i)
  case Nil
  show ?case by simp
next
  case (Cons c hs)
  then obtain s where c: "c = CStr s" by auto
  from Cons obtain ps where "period_columns fixed (Suc i) hs = Inr ps" by fastforce
  with c show ?case by simp
qed

lemma read_scores_total:
  "\<forall>p \<in> set pcs. CStr p \<in> set headers \<Longrightarrow> \<exists>sc'. read_scores headers row pcs sc = Inr sc'"
proof (induction pcs arbitrary: sc)
  case Nil
  show ?case by simp
next
  case (Cons p pcs)
  then obtain k where "index headers (CStr p) = Some k"
    by (cases "index headers (CStr p)") (auto simp: index_None)
  with Cons show ?case by simp
qed

lemma summary_row_total:
  assumes "\<forall>p \<in> set pcs. CStr p \<in> set headers"
  shows "\<exists>sd'. summary_row headers n p i t pcs sd row = Inr sd'"
proof -
  from read_scores_total[OF assms, of row "[]"] obtain sc where
    "read_scores headers row pcs [] = Inr sc" by blast
  then show ?thesis by (simp add: summary_row_def Let_def)
qed

lemma summary_rows_total:
  assumes "\<forall>p \<in> set pcs. CStr p \<in> set headers"
  shows "\<exists>sd'. summary_rows headers n p i t pcs sd rows = Inr sd'"
proof (induction rows arbitrary: sd)
  case Nil
  show ?case by simp
next
  case (Cons r rows)
  from summary_row_total[OF assms, of n p i t sd r] obtain sd1 where
    "summary_row headers n p i t pcs sd r = Inr sd1" by blast
  with Cons[of sd1] show ?case by simp
qed

lemma load_summary_periods:
  assumes tx: "\<forall>c \<in> set headers. \<exists>s. c = CStr s"
    and fx: "CStr ` set fixed_columns \<subseteq> set headers"
  shows "\<exists>data. load_summary (Sheet (headers # rows)) = Inr (data, S_headers headers)"
proof -
  from fx obtain n p i t where ix: "index headers (CStr COL_NAME) = Some n"
      "index headers (CStr COL_PHONE) = Some p" "index headers (CStr COL_ID) = Some i"
      "index headers (CStr COL_TOTAL) = Some t"
    using index_None[of headers] by (fastforce simp: fixed_columns_def)
  from period_columns_total[OF tx] obtain pcs where
    pc: "period_columns [n, p, i, t] 0 headers = Inr pcs" by blast
  have "\<forall>j < length headers. 0 + j \<in> set [n, p, i, t] \<longrightarrow>
          (\<forall>s. headers ! j = CStr s \<longrightarrow> \<not> startswith s ''S'')"
    using index_Some[OF ix(1)] index_Some[OF ix(2)] index_Some[OF ix(3)] index_Some[OF ix(4)]
      fixed_not_S by auto
  from period_columns_Inr[OF pc this] have pcs: "pcs = S_headers headers" .
  have "\<forall>p \<in> set pcs. CStr p \<in> set headers" unfolding pcs by (simp add: set_S_headers)
  from summary_rows_total[OF this, of n p i t "[]" rows] obtain sd where
    "summary_rows headers n p i t pcs [] rows = Inr sd" by blast
  with ix pc pcs show ?thesis by (simp add: load_summary_def)
qed

lemma text_cell_simps [simp]:
  "text_cell (CStr s)" "\<not> text_cell CNone" "\<not> text_cell (CInt k)"
  by (simp_all add: text_cell_def)

lemma text_cell_iff: "text_cell c \<longleftrightarrow> (\<exists>s. c = CStr s)"
  by (cases c) (simp_all add: text_cell_def)


lemma period_columns_not_text:
  "\<not> list_all text_cell hs \<Longrightarrow> \<exists>e. period_columns fixed i hs = Inl e"
proof (induction hs arbitrary: i)
  case Nil
  then show ?case by simp
next
  case (Cons c hs)
  show ?case
  proof (cases c)
    case (CStr s)
    with Cons.prems have "\<not> list_all text_cell hs" by simp
    from Cons.IH[OF this, of "Suc i"] CStr show ?thesis by auto
  qed simp_all
qed






section \<open>The first sighting of an identifier\<close>

lemma summary_identities_keys [simp]: "map fst (summary_identities ed) = map fst ed"
  by (induction ed) (auto simp: summary_identities_def)

lemma map_of_rev_distinct: "distinct (map fst xs) \<Longrightarrow> map_of (rev xs) = map_of xs"
proof (induction xs)
  case Nil
  show ?case by simp
next
  case (Cons a xs)
  obtain k v where a: "a = (k, v)" by (cases a)
  from Cons.prems a have k: "map_of xs k = None" by (simp add: map_of_eq_None_iff)
  from Cons a have ih: "map_of (rev xs) = map_of xs" by simp
  show ?case
  proof (rule ext)
    fix x
    show "map_of (rev (a # xs)) x = map_of (a # xs) x"
      using k ih a by (cases "x = k") (auto simp: map_add_def split: option.splits)
  qed
qed

lemma foldl_update_map_of:
  "map_of (foldl (\<lambda>pi (student_id, data). AList.update student_id (info data) pi) acc xs)
     = map_of acc ++ map_of (rev (summary_identities xs))"
proof (induction xs arbitrary: acc)
  case Nil
  show ?case by (simp add: summary_identities_def)
next
  case (Cons a xs)
  obtain k d where a: "a = (k, d)" by (cases a)
  have "map_of (foldl (\<lambda>pi (student_id, data). AList.update student_id (info data) pi) acc (a # xs))
      = map_of (AList.update k (info d) acc) ++ map_of (rev (summary_identities xs))"
    using Cons[of "AList.update k (info d) acc"] a by simp
  also have "\<dots> = map_of acc ++ map_of (rev (summary_identities (a # xs)))"
    by (rule ext) (simp add: a update_conv' summary_identities_def map_add_def split: option.splits)
  finally show ?case .
qed

lemma initial_state_info:
  "distinct (map fst ed) \<Longrightarrow>
     map_of (participant_info (initial_state ed)) = map_of (summary_identities ed)"
  using map_of_rev_distinct[of "summary_identities ed"]
  by (simp add: initial_state_def foldl_update_map_of)

lemma summary_row_distinct:
  "summary_row headers n p i t pcs sd row = Inr sd' \<Longrightarrow> distinct (map fst sd)
     \<Longrightarrow> distinct (map fst sd')"
  by (auto simp: summary_row_def Let_def distinct_update split: if_splits sum.splits)

lemma summary_rows_distinct:
  "summary_rows headers n p i t pcs sd rows = Inr sd' \<Longrightarrow> distinct (map fst sd)
     \<Longrightarrow> distinct (map fst sd')"
proof (induction rows arbitrary: sd)
  case Nil
  then show ?case by simp
next
  case (Cons r rows)
  from Cons.prems(1) obtain sd1 where 1: "summary_row headers n p i t pcs sd r = Inr sd1"
    and 2: "summary_rows headers n p i t pcs sd1 rows = Inr sd'"
    by (auto split: sum.splits)
  from Cons.IH[OF 2 summary_row_distinct[OF 1 Cons.prems(2)]] show ?case .
qed

lemma read_existing_summary_distinct: "distinct (map fst (fst (read_existing_summary wb)))"
proof (cases "load_summary wb")
  case (Inl e)
  then show ?thesis by (simp add: read_existing_summary_def)
next
  case (Inr r)
  obtain sd pcs where r: "r = (sd, pcs)" by (cases r)
  from Inr r have l: "load_summary wb = Inr (sd, pcs)" by simp
  have "distinct (map fst sd)"
    using l
  proof (cases rule: load_summary_Inr)
    case 1
    then show ?thesis by simp
  next
    case (2 headers n p i t rows)
    from summary_rows_distinct[OF 2(8)] show ?thesis by simp
  qed
  with l show ?thesis by (simp add: read_existing_summary_def)
qed

lemma load_existing_distinct: "distinct (map fst (fst (load_existing summary um)))"
  using read_existing_summary_distinct by (auto simp: load_existing_def split: option.splits)

lemma period_columns_headers:
  "period_columns fixed i hs = Inr ps \<Longrightarrow> \<forall>p \<in> set ps. CStr p \<in> set hs"
proof (induction hs arbitrary: i ps)
  case Nil
  then show ?case by simp
next
  case (Cons c hs)
  from Cons.prems obtain s where c: "c = CStr s" by (cases c) auto
  with Cons.prems obtain ps' where ps': "period_columns fixed (Suc i) hs = Inr ps'"
    and ps: "ps = (if startswith s ''S'' \<and> i \<notin> set fixed then s # ps' else ps')"
    by (auto split: sum.splits)
  from Cons.IH[OF ps'] ps c show ?case by auto
qed

lemma summary_identities_update:
  "summary_identities (AList.update k e al) = AList.update k (info e) (summary_identities al)"
  by (induction al) (auto simp: summary_identities_def)

lemma summary_row_info:
  assumes "summary_row headers n p i t pcs sd row = Inr sd'"
  shows "map_of (summary_identities sd')
           = (if valid_row n p i t row
              then (map_of (summary_identities sd))(str (row ! i) \<mapsto> (row ! n, row ! p))
              else map_of (summary_identities sd))"
proof (cases "valid_row n p i t row")
  case False
  with assms have "sd' = sd"
    by (auto simp: summary_row_def valid_row_def Let_def split: if_splits)
  with False show ?thesis by simp
next
  case True
  with assms obtain sc where
    "sd' = AList.update (str (row ! i)) \<lparr>info = (row ! n, row ! p), scores = sc\<rparr> sd"
    by (auto simp: summary_row_def valid_row_def Let_def split: sum.splits if_splits)
  with True show ?thesis
    by (simp add: summary_identities_update update_conv')
qed

lemma summary_rows_info:
  "summary_rows headers n p i t pcs sd rows = Inr sd' \<Longrightarrow>
   map_of (summary_identities sd')
     = map_of (summary_identities sd)
       ++ map_of (rev (map (\<lambda>row. (str (row ! i), row ! n, row ! p))
                         (filter (valid_row n p i t) rows)))"
proof (induction rows arbitrary: sd)
  case Nil
  then show ?case by simp
next
  case (Cons r rows)
  from Cons.prems obtain sd1 where 1: "summary_row headers n p i t pcs sd r = Inr sd1"
    and 2: "summary_rows headers n p i t pcs sd1 rows = Inr sd'"
    by (auto split: sum.splits)
  let ?rest = "map_of (rev (map (\<lambda>row. (str (row ! i), row ! n, row ! p))
                         (filter (valid_row n p i t) rows)))"
  have step: "map_of (summary_identities sd') = map_of (summary_identities sd1) ++ ?rest"
    by (rule Cons.IH[OF 2])
  show ?case
  proof (cases "valid_row n p i t r")
    case False
    with summary_row_info[OF 1] step show ?thesis by simp
  next
    case True
    with summary_row_info[OF 1]
    have "map_of (summary_identities sd1)
            = map_of (summary_identities sd) ++ map_of [(str (r ! i), r ! n, r ! p)]"
      by simp
    with step True show ?thesis by (simp add: map_add_assoc del: map_of.simps)
  qed
qed

lemma read_existing_summary_info:
  "map_of (summary_identities (fst (read_existing_summary wb)))
     = map_of (case header_row wb of
                 Inl e \<Rightarrow> []
               | Inr headers \<Rightarrow> if list_all text_cell headers then rev (sightings wb) else [])"
proof (cases "header_row wb")
  case (Inl e)
  then show ?thesis by (simp add: read_existing_summary_def load_summary_def summary_identities_def)
next
  case (Inr headers)
  show ?thesis
  proof (cases "CStr ` set fixed_columns \<subseteq> set headers")
    case False
    then have "index headers (CStr COL_NAME) = None \<or> index headers (CStr COL_PHONE) = None
        \<or> index headers (CStr COL_ID) = None \<or> index headers (CStr COL_TOTAL) = None"
      by (auto simp: index_None fixed_columns_def)
    with Inr have "sightings wb = []" "load_summary wb = Inr ([], [])"
      by (auto simp: sightings_def load_summary_def split: option.splits)
    with Inr show ?thesis by (simp add: read_existing_summary_def summary_identities_def)
  next
    case True
    then obtain n p i t where ix: "index headers (CStr COL_NAME) = Some n"
      "index headers (CStr COL_PHONE) = Some p" "index headers (CStr COL_ID) = Some i"
      "index headers (CStr COL_TOTAL) = Some t"
      using index_None[of headers] by (fastforce simp: fixed_columns_def)
    show ?thesis
    proof (cases "list_all text_cell headers")
      case False
      from period_columns_not_text[OF False, of "[n, p, i, t]" 0] obtain e where
        "period_columns [n, p, i, t] 0 headers = Inl e" by blast
      with Inr ix have "load_summary wb = Inl e" by (simp add: load_summary_def)
      with Inr False show ?thesis by (simp add: read_existing_summary_def summary_identities_def)
    next
      case tx: True
      then have "\<forall>c \<in> set headers. \<exists>s. c = CStr s" by (simp add: list_all_iff text_cell_iff)
      from period_columns_total[OF this] obtain pcs where
        pc: "period_columns [n, p, i, t] 0 headers = Inr pcs" by blast
      show ?thesis
      proof (cases "data_rows wb")
        case (Inl e)
        with Inr ix pc have "load_summary wb = Inl e" "sightings wb = []"
          by (simp_all add: load_summary_def sightings_def)
        with Inr show ?thesis by (simp add: read_existing_summary_def summary_identities_def)
      next
        case r: (Inr rows)
        from summary_rows_total[OF period_columns_headers[OF pc], of n p i t "[]" rows]
        obtain sd where sd: "summary_rows headers n p i t pcs [] rows = Inr sd" by blast
        with Inr ix pc r have l: "load_summary wb = Inr (sd, pcs)" by (simp add: load_summary_def)
        from Inr ix r have s: "sightings wb = map (\<lambda>row. (str (row ! i), row ! n, row ! p))
                         (filter (valid_row n p i t) rows)" by (simp add: sightings_def)
        from summary_rows_info[OF sd] l s Inr tx show ?thesis
          by (simp add: read_existing_summary_def summary_identities_def)
      qed
    qed
  qed
qed

lemma load_existing_info:
  "map_of (summary_identities (fst (load_existing summary um)))
     = map_of (summary_sightings summary um)"
  using read_existing_summary_info
  by (auto simp: load_existing_def summary_sightings_def summary_identities_def
           split: option.splits)

lemma initial_state_sightings:
  "map_of (participant_info (initial_state (fst (load_existing summary um))))
     = map_of (summary_sightings summary um)"
  using initial_state_info[OF load_existing_distinct] load_existing_info by simp

lemma ingest_info:
  "map_of (participant_info (ingest found summary um)) = map_of (identity_sightings found summary um)"
proof -
  have "map_of (participant_info (ingest found summary um))
      = map_of (participant_info (initial_state (fst (load_existing summary um)))
               @ concat (map (\<lambda>(f, wb). sightings wb)
                   (considered um (snd (load_existing summary um)) (sort_key fst found))))"
    unfolding ingest_def by (rule process_files_info)
  also have "\<dots> = map_of (identity_sightings found summary um)"
    unfolding identity_sightings_def
    by (rule map_of_append_cong) (rule initial_state_sightings)
  finally show ?thesis .
qed

lemma output_identity:
  assumes w: "process_activity_data iter found summary um = Inr (Written table)"
    and it: "\<forall>xs. set (iter xs) \<subseteq> set xs"
    and r: "r \<in> set (tl table)"
  shows "\<exists>sid. r ! 2 = CStr sid \<and>
           map_of (identity_sightings found summary um) sid = Some (r ! 0, r ! 1)"
proof -
  let ?st = "ingest found summary um"
  from table_rows[OF w r] obtain sid ps where
    sid: "sid \<in> set (iter (all_participants ?st))" and row: "student_row ?st ps sid = Inr r"
    by blast
  from sid it have "sid \<in> set (all_participants ?st)" by blast
  with ingest_known[of found summary um] have "sid \<in> fst ` set (participant_info ?st)" by blast
  then obtain nm where nm: "map_of (participant_info ?st) sid = Some nm"
    by (cases "map_of (participant_info ?st) sid") (auto simp: map_of_eq_None_iff)
  then have si: "student_info ?st sid = nm" by (simp add: student_info_def)
  from student_row_Inr[OF row] si have "r ! 2 = CStr sid" "r ! 0 = fst nm" "r ! 1 = snd nm"
    by auto
  with nm ingest_info[of found summary um] show ?thesis by (metis prod.collapse)
qed

lemma example_first_run:
  "process_activity_data as_inserted [(''S2.xlsx'', example_later_file)]
     (Some example_known_summary) True = Inr (Written example_first_table)"
  by code_simp

text \<open>
  C4. In every table that is written, the name and contact cells of a participant's row
  are those of the first sighting of the identifier in the run. An existing summary that
  the run loads counts as seen first: when it has a row for the identifier, the cells are
  those of that row of the summary (of the last one, if it has several), whatever the
  period files say. Otherwise they are those of the first row with this identifier in
  the first file (in name order, among the files that are not skipped as known and are
  not rejected) that has one. Later sightings change nothing.
\<close>

theorem identity_is_first_sighting:
  assumes "process_activity_data iter found summary update_mode = Inr (Written table)"
    and "\<forall>xs. set (iter xs) \<subseteq> set xs"
    and "r \<in> set (tl table)"
  shows "\<exists>sid. r ! 2 = CStr sid \<and>
           map_of (identity_sightings found summary update_mode) sid = Some (r ! 0, r ! 1)"
  using output_identity[OF assms] .

theorem identity_is_first_sighting_witness:
  "process_activity_data as_inserted [(''S2.xlsx'', example_later_file)]
     (Some example_known_summary) True = Inr (Written example_first_table) \<and>
   (\<forall>xs. set (as_inserted xs) \<subseteq> set xs) \<and>
   [CStr ''Alice'', CInt 111, CStr ''100'', CInt 5, CInt 7, CInt 12]
     \<in> set (tl example_first_table) \<and>
   identity_sightings [(''S2.xlsx'', example_later_file)] (Some example_known_summary) True
     = [(''100'', CStr ''Alice'', CInt 111), (''100'', CStr ''Alicia'', CInt 999)] \<and>
   map_of (identity_sightings [(''S2.xlsx'', example_later_file)]
             (Some example_known_summary) True) ''100''
     = Some (CStr ''Alice'', CInt 111) \<and>
   process_activity_data as_inserted example_found None True = Inr (Written example_table) \<and>
   [CStr ''B'', CNone, CStr ''101'', CInt 30, CInt 40, CInt 70] \<in> set (tl example_table) \<and>
   identity_sightings example_found None True
     = [(''100'', CStr ''A'', CInt 555), (''101'', CStr ''B'', CNone),
        (''101'', CStr ''B2'', CInt 777), (''102'', CStr ''C'', CNone)] \<and>
   map_of (identity_sightings example_found None True) ''101'' = Some (CStr ''B'', CNone)"
proof -
  have i: "\<forall>xs. set (as_inserted xs) \<subseteq> set xs" by (simp add: as_inserted_def)
  have r1: "[CStr ''Alice'', CInt 111, CStr ''100'', CInt 5, CInt 7, CInt 12]
      \<in> set (tl example_first_table)"
    by (simp add: example_first_table_def)
  have s1: "identity_sightings [(''S2.xlsx'', example_later_file)]
      (Some example_known_summary) True
     = [(''100'', CStr ''Alice'', CInt 111), (''100'', CStr ''Alicia'', CInt 999)]"
    by code_simp
  from identity_is_first_sighting[OF example_first_run i r1]
  have m1: "map_of (identity_sightings [(''S2.xlsx'', example_later_file)]
             (Some example_known_summary) True) ''100''
     = Some (CStr ''Alice'', CInt 111)"
    by simp
  have w2: "process_activity_data as_inserted example_found None True
      = Inr (Written example_table)"
    by code_simp
  have r2: "[CStr ''B'', CNone, CStr ''101'', CInt 30, CInt 40, CInt 70] \<in> set (tl example_table)"
    by (simp add: example_table_def)
  have s2: "identity_sightings example_found None True
     = [(''100'', CStr ''A'', CInt 555), (''101'', CStr ''B'', CNone),
        (''101'', CStr ''B2'', CInt 777), (''102'', CStr ''C'', CNone)]"
    by code_simp
  from identity_is_first_sighting[OF w2 i r2]
  have m2: "map_of (identity_sightings example_found None True) ''101'' = Some (CStr ''B'', CNone)"
    by simp
  from example_first_run i r1 s1 m1 w2 r2 s2 m2 show ?thesis by blast
qed

section \<open>Absent names\<close>

lemma example_absent_name_run:
  "process_activity_data as_inserted [(''S1.xlsx'', example_absent_name)] None True
     = Inr (Written example_absent_name_table)"
  by code_simp

text \<open>
  C9 (as amended). When the name cell of a participant's first sighting is absent, the
  name cell of the participant's row in the written table is absent too, and is not the
  \<open>unknown\<close> sentinel: the sentinel is only the default for an identifier without an
  identity record, and every participant of the table has one.
\<close>

theorem absent_name_stays_absent:
  assumes "process_activity_data iter found summary update_mode = Inr (Written table)"
    and "\<forall>xs. set (iter xs) \<subseteq> set xs"
    and "r \<in> set (tl table)"
    and "r ! 2 = CStr sid"
    and "map_of (identity_sightings found summary update_mode) sid = Some (CNone, phone)"
  shows "r ! 0 = CNone \<and> r ! 0 \<noteq> CStr UNKNOWN"
proof -
  from output_identity[OF assms(1-3)] obtain sid' where
    "r ! 2 = CStr sid'"
    "map_of (identity_sightings found summary update_mode) sid' = Some (r ! 0, r ! 1)"
    by blast
  with assms(4,5) show ?thesis by simp
qed

theorem absent_name_stays_absent_witness:
  "process_activity_data as_inserted [(''S1.xlsx'', example_absent_name)] None True
     = Inr (Written example_absent_name_table) \<and>
   (\<forall>xs. set (as_inserted xs) \<subseteq> set xs) \<and>
   [CNone, CNone, CStr ''100'', CInt 5, CInt 5] \<in> set (tl example_absent_name_table) \<and>
   [CNone, CNone, CStr ''100'', CInt 5, CInt 5] ! 2 = CStr ''100'' \<and>
   map_of (identity_sightings [(''S1.xlsx'', example_absent_name)] None True) ''100''
     = Some (CNone, CNone) \<and>
   [CNone, CNone, CStr ''100'', CInt 5, CInt 5] ! 0 = CNone"
proof -
  have i: "\<forall>xs. set (as_inserted xs) \<subseteq> set xs" by (simp add: as_inserted_def)
  have r: "[CNone, CNone, CStr ''100'', CInt 5, CInt 5] \<in> set (tl example_absent_name_table)"
    by (simp add: example_absent_name_table_def)
  have k: "[CNone, CNone, CStr ''100'', CInt 5, CInt 5] ! 2 = CStr ''100''" by simp
  have m: "map_of (identity_sightings [(''S1.xlsx'', example_absent_name)] None True) ''100''
     = Some (CNone, CNone)"
    by code_simp
  from absent_name_stays_absent[OF example_absent_name_run i r k m] example_absent_name_run
    i r k m
  show ?thesis by blast
qed

text \<open>
  A file whose only row has no name: the row of participant 100 in the written table has
  an absent name cell, not the sentinel.
\<close>

theorem absent_name_is_written_absent:
  "process_activity_data as_inserted [(''S1.xlsx'', example_absent_name)] None True
     = Inr (Written example_absent_name_table) \<and>
   hd (tl example_absent_name_table) ! 2 = CStr ''100'' \<and>
   hd (tl example_absent_name_table) ! 0 = CNone \<and>
   hd (tl example_absent_name_table) ! 0 \<noteq> CStr UNKNOWN"
  using example_absent_name_run by (simp add: example_absent_name_table_def)

section \<open>Running twice\<close>

lemma S_headers_append: "S_headers (a @ b) = S_headers a @ S_headers b"
  by (induction a rule: S_headers.induct) auto

lemma S_headers_map: "\<forall>p \<in> set ps. startswith p ''S'' \<Longrightarrow> S_headers (map CStr ps) = ps"
  by (induction ps) auto

lemma period_columns_S:
  "period_columns fixed i hs = Inr ps \<Longrightarrow> \<forall>p \<in> set ps. startswith p ''S''"
proof (induction hs arbitrary: i ps)
  case Nil
  then show ?case by simp
next
  case (Cons c hs)
  from Cons.prems obtain s where c: "c = CStr s" by (cases c) auto
  with Cons.prems obtain ps' where ps': "period_columns fixed (Suc i) hs = Inr ps'"
    and ps: "ps = (if startswith s ''S'' \<and> i \<notin> set fixed then s # ps' else ps')"
    by (auto split: sum.splits)
  from Cons.IH[OF ps'] ps show ?case by auto
qed

lemma read_existing_summary_S:
  "\<forall>p \<in> set (snd (read_existing_summary wb)). startswith p ''S''"
proof (cases "load_summary wb")
  case (Inl e)
  then show ?thesis by (simp add: read_existing_summary_def)
next
  case (Inr r)
  obtain sd pcs where r: "r = (sd, pcs)" by (cases r)
  from Inr r have l: "load_summary wb = Inr (sd, pcs)" by simp
  have "\<forall>p \<in> set pcs. startswith p ''S''"
    using l
  proof (cases rule: load_summary_Inr)
    case 1
    then show ?thesis by simp
  next
    case (2 headers n p i t rows)
    from period_columns_S[OF 2(6)] show ?thesis .
  qed
  with l show ?thesis by (simp add: read_existing_summary_def)
qed

lemma load_existing_S:
  "\<forall>p \<in> set (snd (load_existing summary um)). startswith p ''S''"
  using read_existing_summary_S by (auto simp: load_existing_def split: option.splits)

lemma period_key_S: "startswith (period_key f) ''S''"
  by (simp add: period_key_def startswith_def)

lemma all_periods_S:
  "\<forall>p \<in> set ep. startswith p ''S'' \<Longrightarrow> \<forall>p \<in> set (all_periods ep fs). startswith p ''S''"
  using period_key_S by (auto simp: all_periods_def)

lemma written_table_periods:
  assumes "build_table iter st ps = Inr table" "\<forall>p \<in> set ps. startswith p ''S''"
  shows "snd (read_existing_summary (Sheet table)) = ps"
proof -
  let ?h = "[CStr COL_NAME, CStr COL_PHONE, CStr COL_ID] @ map CStr ps @ [CStr COL_TOTAL]"
  from build_table_Inr[OF assms(1)] obtain rows where t: "table = ?h # rows" by blast
  have tx: "\<forall>c \<in> set ?h. \<exists>s. c = CStr s" by auto
  have fx: "CStr ` set fixed_columns \<subseteq> set ?h" by (simp add: fixed_columns_def)
  from load_summary_periods[OF tx fx, of rows] obtain data where
    "load_summary (Sheet (?h # rows)) = Inr (data, S_headers ?h)" by blast
  moreover have "S_headers ?h = ps"
    using fixed_not_S S_headers_map[OF assms(2)] by (simp add: S_headers_append)
  ultimately show ?thesis using t by (simp add: read_existing_summary_def)
qed

lemma not_consumable:
  assumes "\<not> consumable wb"
  shows "try_file f wb st = Inr st \<or> (\<exists>e. try_file f wb st = Inl e)"
proof (cases "header_row wb")
  case (Inl e)
  then show ?thesis by (simp add: try_file_def)
next
  case (Inr headers)
  show ?thesis
  proof (cases "CStr ` set required_columns \<subseteq> set headers")
    case False
    from try_file_rejects[OF Inr False] show ?thesis by simp
  next
    case True
    then have "list_all (\<lambda>col. CStr col \<in> set headers) required_columns"
      by (auto simp: list_all_iff)
    with assms Inr obtain e where e: "data_rows wb = Inl e"
      by (auto simp: consumable_def split: sum.splits)
    from True have m: "filter (\<lambda>col. CStr col \<notin> set headers) required_columns = []"
      by (auto simp: filter_empty_conv)
    from Inr m e have "\<exists>e. try_file f wb st = Inl e"
      by (auto simp: try_file_def split: option.splits)
    then show ?thesis by simp
  qed
qed

lemma consumable_processed:
  assumes "consumable wb"
  shows "\<exists>st'. try_file f wb st = Inr st' \<and> processed_files st' = processed_files st @ [f]"
proof -
  from assms obtain headers rows where h: "header_row wb = Inr headers"
    and c: "list_all (\<lambda>col. CStr col \<in> set headers) required_columns"
    and d: "data_rows wb = Inr rows"
    by (auto simp: consumable_def split: sum.splits)
  from c have m: "filter (\<lambda>col. CStr col \<notin> set headers) required_columns = []"
    by (auto simp: filter_empty_conv list_all_iff)
  from c obtain n p i s where ix: "index headers (CStr COL_NAME) = Some n"
      "index headers (CStr COL_PHONE) = Some p" "index headers (CStr COL_ID) = Some i"
      "index headers (CStr COL_TOTAL) = Some s"
    using index_None[of headers] by (fastforce simp: required_columns_def)
  from h m ix d show ?thesis by (simp add: try_file_def)
qed

lemma try_file_processed_mono:
  "try_file f wb st = Inr st' \<Longrightarrow> set (processed_files st) \<subseteq> set (processed_files st')"
  by (erule try_file_Inr) auto

lemma process_files_processed_mono:
  "set (processed_files st) \<subseteq> set (processed_files (process_files um ep files st))"
proof (induction files arbitrary: st)
  case Nil
  show ?case by simp
next
  case (Cons a files)
  obtain f wb where a: "a = (f, wb)" by (cases a)
  let ?st' = "if period_key f \<in> set ep \<and> um then st
        else (case try_file f wb st of Inl e \<Rightarrow> st | Inr st' \<Rightarrow> st')"
  have "set (processed_files st) \<subseteq> set (processed_files ?st')"
    using try_file_processed_mono[of f wb st] by (auto split: sum.splits)
  with Cons[of ?st'] show ?case unfolding a process_files_Cons by blast
qed

lemma first_run_covers:
  "(f, wb) \<in> set files \<Longrightarrow>
     (period_key f \<in> set ep \<and> um) \<or> \<not> consumable wb
     \<or> f \<in> set (processed_files (process_files um ep files st))"
proof (induction files arbitrary: st)
  case Nil
  then show ?case by simp
next
  case (Cons a files)
  obtain g wb' where a: "a = (g, wb')" by (cases a)
  let ?st' = "if period_key g \<in> set ep \<and> um then st
        else (case try_file g wb' st of Inl e \<Rightarrow> st | Inr st' \<Rightarrow> st')"
  show ?case
  proof (cases "(f, wb) = a")
    case False
    with Cons.prems have "(f, wb) \<in> set files" by simp
    from Cons.IH[OF this, of ?st'] show ?thesis unfolding a process_files_Cons .
  next
    case True
    with a have fg: "g = f" "wb' = wb" by simp_all
    show ?thesis
    proof (cases "(period_key f \<in> set ep \<and> um) \<or> \<not> consumable wb")
      case True
      then show ?thesis by blast
    next
      case False
      then have c: "consumable wb" and k: "\<not> (period_key f \<in> set ep \<and> um)" by simp_all
      from consumable_processed[OF c, of f st] obtain st' where
        t: "try_file f wb st = Inr st'" and p: "processed_files st' = processed_files st @ [f]"
        by blast
      from k t fg have "?st' = st'" by auto
      moreover from p have "f \<in> set (processed_files st')" by simp
      ultimately have "f \<in> set (processed_files (process_files um ep files ?st'))"
        using process_files_processed_mono[of st' um ep files] by auto
      then show ?thesis unfolding a process_files_Cons by simp
    qed
  qed
qed

lemma second_run_noop:
  "\<forall>(f, wb) \<in> set files. (period_key f \<in> set ep \<and> um) \<or> \<not> consumable wb \<Longrightarrow>
   process_files um ep files st = st"
proof (induction files)
  case Nil
  show ?case by simp
next
  case (Cons a files)
  obtain f wb where a: "a = (f, wb)" by (cases a)
  from Cons.prems a have "(period_key f \<in> set ep \<and> um) \<or> \<not> consumable wb" by simp
  then have "(if period_key f \<in> set ep \<and> um then st
        else (case try_file f wb st of Inl e \<Rightarrow> st | Inr st' \<Rightarrow> st')) = st"
    using not_consumable[of wb f st] by (auto split: sum.splits)
  moreover from Cons have "process_files um ep files st = st" by simp
  ultimately show ?case unfolding a process_files_Cons by simp
qed

lemma not_written_processed:
  assumes "process_activity_data iter found summary um = Inr out" "\<forall>t. out \<noteq> Written t"
  shows "processed_files (ingest found summary um) = []"
proof (cases "found = []")
  case True
  then show ?thesis by (simp add: ingest_def initial_state_def)
next
  case False
  with assms show ?thesis
    by (auto simp: process_activity_data_def Let_def split: if_splits sum.splits)
qed

lemma known_or_rejected_after:
  assumes r1: "process_activity_data iter found summary True = Inr out1"
    and m: "(f, wb) \<in> set found"
  shows "period_key f \<in> set (snd (load_existing (summary_after summary (Inr out1)) True))
           \<or> \<not> consumable wb"
proof -
  let ?ep = "snd (load_existing summary True)"
  let ?st0 = "initial_state (fst (load_existing summary True))"
  let ?st1 = "ingest found summary True"
  from m have m': "(f, wb) \<in> set (sort_key fst found)" by simp
  from first_run_covers[OF m', of ?ep True ?st0]
  have cov: "period_key f \<in> set ?ep \<or> \<not> consumable wb \<or> f \<in> set (processed_files ?st1)"
    by (simp add: ingest_def)
  show ?thesis
  proof (cases "\<exists>t. out1 = Written t")
    case False
    then have "summary_after summary (Inr out1) = summary" by (cases out1) simp_all
    moreover from not_written_processed[OF r1] False have "processed_files ?st1 = []" by blast
    ultimately show ?thesis using cov by simp
  next
    case True
    then obtain t where t: "out1 = Written t" by blast
    let ?ps = "all_periods ?ep (processed_files ?st1)"
    from process_Written[OF r1[unfolded t]] have b: "build_table iter ?st1 ?ps = Inr t" .
    from written_table_periods[OF b all_periods_S[OF load_existing_S]]
    have "snd (load_existing (summary_after summary (Inr out1)) True) = ?ps"
      by (simp add: t load_existing_def)
    moreover from cov have "period_key f \<in> set ?ps \<or> \<not> consumable wb"
      by (auto simp: all_periods_def)
    ultimately show ?thesis by simp
  qed
qed

text \<open>
  C3 (as amended). When a run in update mode returns, a second run in update mode on the
  same files, with the summary file the first run left, consumes no file and writes
  nothing, so the summary file stays as the first run left it. In the second run the
  label of every file that the first run consumed or skipped as known is known; a file
  whose label is not known is one that cannot be consumed, and is rejected again.
\<close>

theorem second_run_consumes_nothing:
  assumes r1: "process_activity_data iter found summary True = Inr out1"
  shows "processed_files (ingest found (summary_after summary (Inr out1)) True) = [] \<and>
         process_activity_data iter found (summary_after summary (Inr out1)) True
           \<in> {Inr Not_Found, Inr Nothing_Read, Inr Unchanged} \<and>
         summary_after (summary_after summary (Inr out1))
           (process_activity_data iter found (summary_after summary (Inr out1)) True)
           = summary_after summary (Inr out1) \<and>
         (\<forall>(f, wb) \<in> set found.
            period_key f \<in> set (snd (load_existing (summary_after summary (Inr out1)) True))
            \<or> \<not> consumable wb)"
proof -
  let ?s1 = "summary_after summary (Inr out1)"
  let ?ep1 = "snd (load_existing ?s1 True)"
  have k: "\<forall>(f, wb) \<in> set found. period_key f \<in> set ?ep1 \<or> \<not> consumable wb"
    using known_or_rejected_after[OF r1] by blast
  then have "\<forall>(f, wb) \<in> set (sort_key fst found).
      (period_key f \<in> set ?ep1 \<and> True) \<or> \<not> consumable wb" by simp
  from second_run_noop[OF this]
  have "ingest found ?s1 True = initial_state (fst (load_existing ?s1 True))"
    by (simp add: ingest_def)
  then have p: "processed_files (ingest found ?s1 True) = []" by (simp add: initial_state_def)
  then have o: "process_activity_data iter found ?s1 True
           \<in> {Inr Not_Found, Inr Nothing_Read, Inr Unchanged}"
    by (simp add: process_activity_data_def Let_def)
  then have "summary_after ?s1 (process_activity_data iter found ?s1 True) = ?s1" by auto
  with p o k show ?thesis by blast
qed

theorem second_run_consumes_nothing_witness:
  "process_activity_data (\<lambda>xs. xs) example_found None True = Inr (Written example_table) \<and>
   processed_files (ingest example_found (Some (Sheet example_table)) True) = [] \<and>
   process_activity_data (\<lambda>xs. xs) example_found (Some (Sheet example_table)) True
     = Inr Unchanged"
proof -
  have u: "process_activity_data (\<lambda>xs. xs) example_found (Some (Sheet example_table)) True
     = Inr Unchanged"
    by code_simp
  from second_run_consumes_nothing[OF example_run] example_run u show ?thesis by simp
qed

text \<open>
  A batch with a file that cannot be read: after the first run the label \<open>S2\<close> of that
  file is not among the known labels of the second run, which still consumes nothing.
\<close>

theorem rejected_file_label_stays_unknown:
  "process_activity_data as_inserted example_batch None True
     = Inr (Written example_batch_table) \<and>
   snd (load_existing (Some (Sheet example_batch_table)) True) = [''S1''] \<and>
   period_key ''S2.xlsx'' = ''S2'' \<and>
   period_key ''S2.xlsx'' \<notin> set (snd (load_existing (Some (Sheet example_batch_table)) True)) \<and>
   process_activity_data as_inserted example_batch (Some (Sheet example_batch_table)) True
     = Inr Unchanged"
  by code_simp

end
